theory Spec2Isabelle
  imports Complex_Main
begin

section \<open>BubbleSort.tsx: types and constants\<close>

text \<open>
  JavaScript numbers are modelled as \<open>int\<close> (every number of the engine is a small
  integer); \<open>Math.random()\<close> is a real in \<open>[0, 1)\<close> read from a random source
  \<open>rnd :: nat \<Rightarrow> real\<close> at a position that advances by one with every call.
  An array read \<open>a[i]\<close> is \<open>js_index a i\<close>: \<open>None\<close> is JavaScript's \<open>undefined\<close>.
\<close>

datatype Operator = Plus | Minus | Times | Divide

datatype js_error = TypeError

record BubbleData =
  id_b :: int
  expression :: string
  value_b :: int
  selected :: bool
  offsetX :: int
  offsetY :: int
  size_b :: int

record DifficultyConfig =
  bubbleCount :: int
  operators :: "Operator list"
  maxNumber :: int
  roundTime :: int

definition SESSION_DURATION :: int where "SESSION_DURATION = 420"
definition ROUND_TIME :: int where "ROUND_TIME = 15"
definition TOTAL_QUESTIONS :: int where "TOTAL_QUESTIONS = 20"
definition CORRECT_DELAY_MS :: nat where "CORRECT_DELAY_MS = 250"

definition DIFFICULTY_TABLE :: "DifficultyConfig list" where
  "DIFFICULTY_TABLE =
    [\<lparr>bubbleCount = 3, operators = [Plus], maxNumber = 20, roundTime = ROUND_TIME\<rparr>,
     \<lparr>bubbleCount = 3, operators = [Plus], maxNumber = 30, roundTime = ROUND_TIME\<rparr>,
     \<lparr>bubbleCount = 3, operators = [Plus, Minus], maxNumber = 20, roundTime = ROUND_TIME\<rparr>,
     \<lparr>bubbleCount = 3, operators = [Plus, Minus], maxNumber = 30, roundTime = ROUND_TIME\<rparr>,
     \<lparr>bubbleCount = 3, operators = [Plus, Minus, Times], maxNumber = 15, roundTime = ROUND_TIME\<rparr>,
     \<lparr>bubbleCount = 3, operators = [Plus, Minus, Times], maxNumber = 20, roundTime = ROUND_TIME\<rparr>,
     \<lparr>bubbleCount = 3, operators = [Plus, Minus, Times, Divide], maxNumber = 20,
      roundTime = ROUND_TIME\<rparr>,
     \<lparr>bubbleCount = 3, operators = [Plus, Minus, Times, Divide], maxNumber = 30,
      roundTime = ROUND_TIME\<rparr>]"

text \<open>Each layout entry is \<open>(x, y, s)\<close>.\<close>

definition SCATTER_POSITIONS :: "(int \<times> int \<times> int) list list" where
  "SCATTER_POSITIONS =
    [[(50, 20, 130), (28, 58, 130), (72, 58, 130)],
     [(28, 30, 130), (72, 30, 130), (50, 68, 130)],
     [(72, 58, 130), (50, 20, 130), (28, 58, 130)],
     [(50, 68, 130), (28, 30, 130), (72, 30, 130)]]"

definition js_index :: "'a list \<Rightarrow> int \<Rightarrow> 'a option" where
  "js_index xs i = (if 0 \<le> i \<and> i < int (length xs) then Some (xs ! nat i) else None)"

text \<open>
  The remainder \<open>a % b\<close> of JavaScript takes the sign of the dividend. A result \<open>-0\<close>
  indexes an array as \<open>0\<close> does, so it is the integer \<open>0\<close> here.
\<close>

definition js_rem :: "int \<Rightarrow> int \<Rightarrow> int" where
  "js_rem a b = (if a < 0 then - ((- a) mod \<bar>b\<bar>) else a mod \<bar>b\<bar>)"

section \<open>Expression generator\<close>

definition randomInt :: "int \<Rightarrow> int \<Rightarrow> real \<Rightarrow> int" where
  "randomInt lo hi r = \<lfloor>r * of_int (hi - lo + 1)\<rfloor> + lo"

text \<open>Template literals print a number in decimal, with a minus sign when negative.\<close>

definition digit_char :: "nat \<Rightarrow> char" where
  "digit_char d = ''0123456789'' ! d"

fun show_nat :: "nat \<Rightarrow> string" where
  "show_nat n = (if n < 10 then [digit_char n] else show_nat (n div 10) @ [digit_char (n mod 10)])"

declare show_nat.simps [simp del]

definition show_int :: "int \<Rightarrow> string" where
  "show_int i = (if i < 0 then CHR ''-'' # show_nat (nat (- i)) else show_nat (nat i))"

text \<open>The code units of the operator symbols: \<open>+\<close>, \<open>-\<close>, U+00D7 and U+00F7.\<close>

definition op_char :: "Operator \<Rightarrow> char" where
  "op_char op = (case op of Plus \<Rightarrow> CHR ''+'' | Minus \<Rightarrow> CHR ''-''
                 | Times \<Rightarrow> CHR 0xD7 | Divide \<Rightarrow> CHR 0xF7)"

definition template :: "int \<Rightarrow> Operator \<Rightarrow> int \<Rightarrow> string" where
  "template a op b = show_int a @ [op_char op] @ show_int b"

text \<open>
  \<open>generateExpression\<close> draws the operator, then the two operands: three calls of
  \<open>Math.random()\<close> on every path. The result is \<open>((expression, value), next position)\<close>.
  An empty operator list gives \<open>undefined\<close>, which falls to the \<open>default\<close> case.
\<close>

definition generateExpression ::
    "Operator list \<Rightarrow> int \<Rightarrow> (nat \<Rightarrow> real) \<Rightarrow> nat \<Rightarrow> (string \<times> int) \<times> nat" where
  "generateExpression ops maxNum rnd n =
    (let op = js_index ops \<lfloor>rnd n * of_int (int (length ops))\<rfloor> in
     case op of
       Some Plus \<Rightarrow>
         (let a = randomInt 1 maxNum (rnd (n + 1));
              b = randomInt 1 maxNum (rnd (n + 2));
              v = a + b
          in ((template a Plus b, v), n + 3))
     | Some Minus \<Rightarrow>
         (let a = randomInt 2 maxNum (rnd (n + 1));
              b = randomInt 0 a (rnd (n + 2));
              v = a - b
          in ((template a Minus b, v), n + 3))
     | Some Times \<Rightarrow>
         (let a = randomInt 1 (min maxNum 12) (rnd (n + 1));
              b = randomInt 1 (min maxNum 9) (rnd (n + 2));
              v = a * b
          in ((template a Times b, v), n + 3))
     | Some Divide \<Rightarrow>
         (let b = randomInt 2 (min maxNum 10) (rnd (n + 1));
              v = randomInt 1 (min maxNum 12) (rnd (n + 2));
              a = b * v
          in ((template a Divide b, v), n + 3))
     | None \<Rightarrow>
         (let a = randomInt 1 maxNum (rnd (n + 1));
              b = randomInt 1 maxNum (rnd (n + 2));
              v = a + b
          in ((template a Plus b, v), n + 3)))"

text \<open>
  The \<open>do ... while\<close> loop of one slot: at least one draw, and another one while the
  value is already used and fewer than 50 attempts were made. The result carries the
  local counter \<open>attempts\<close> at the exit of the loop.
\<close>

function retry_draw ::
    "Operator list \<Rightarrow> int \<Rightarrow> (nat \<Rightarrow> real) \<Rightarrow> int set \<Rightarrow> nat \<Rightarrow> nat
      \<Rightarrow> (string \<times> int) \<times> nat \<times> nat" where
  "retry_draw ops maxNum rnd usedValues attempts n =
    (let r = generateExpression ops maxNum rnd n;
         attempts' = attempts + 1
     in if snd (fst r) \<in> usedValues \<and> attempts' < 50
        then retry_draw ops maxNum rnd usedValues attempts' (snd r)
        else (fst r, attempts', snd r))"
  by pat_completeness auto
termination
  by (relation "measure (\<lambda>(ops, maxNum, rnd, usedValues, attempts, n). 50 - attempts)") auto

declare retry_draw.simps [simp del]

text \<open>
  The \<open>for\<close> loop of \<open>generateBubbles\<close>, from slot \<open>i\<close> on. Reading \<open>layout[i].x\<close>
  throws a TypeError when the layout or its entry \<open>i\<close> is \<open>undefined\<close>. Each bubble is
  paired with the number of attempts its slot took; \<open>generateBubbles\<close> drops it.
\<close>

function fill_slots ::
    "DifficultyConfig \<Rightarrow> (int \<times> int \<times> int) list option \<Rightarrow> (nat \<Rightarrow> real) \<Rightarrow> int
      \<Rightarrow> int set \<Rightarrow> (BubbleData \<times> nat) list \<Rightarrow> nat
      \<Rightarrow> (js_error + (BubbleData \<times> nat) list) \<times> nat" where
  "fill_slots config layout rnd i usedValues bubbles n =
    (if i < bubbleCount config then
       (let d = retry_draw (operators config) (maxNumber config) rnd usedValues 0 n;
            expr = fst d;
            n' = snd (snd d)
        in case (case layout of None \<Rightarrow> None | Some l \<Rightarrow> js_index l i) of
             None \<Rightarrow> (Inl TypeError, n')
           | Some (x, y, s) \<Rightarrow>
               fill_slots config layout rnd (i + 1) (insert (snd expr) usedValues)
                 (bubbles @ [(\<lparr>id_b = i, expression = fst expr, value_b = snd expr,
                               selected = False, offsetX = x, offsetY = y, size_b = s\<rparr>,
                              fst (snd d))]) n')
     else (Inr bubbles, n))"
  by pat_completeness auto
termination
  by (relation "measure (\<lambda>(config, layout, rnd, i, usedValues, bubbles, n).
        nat (bubbleCount config - i))") auto

declare fill_slots.simps [simp del]

definition generateBubblesTrace ::
    "DifficultyConfig \<Rightarrow> int \<Rightarrow> (nat \<Rightarrow> real) \<Rightarrow> nat
      \<Rightarrow> (js_error + (BubbleData \<times> nat) list) \<times> nat" where
  "generateBubblesTrace config round_no rnd n =
    fill_slots config
      (js_index SCATTER_POSITIONS (js_rem (round_no - 1) (int (length SCATTER_POSITIONS))))
      rnd 0 {} [] n"

definition generateBubbles ::
    "DifficultyConfig \<Rightarrow> int \<Rightarrow> (nat \<Rightarrow> real) \<Rightarrow> nat \<Rightarrow> (js_error + BubbleData list) \<times> nat" where
  "generateBubbles config round_no rnd n =
    (case generateBubblesTrace config round_no rnd n of
       (Inl e, n') \<Rightarrow> (Inl e, n')
     | (Inr bs, n') \<Rightarrow> (Inr (map fst bs), n'))"

section \<open>Reading a displayed expression\<close>

text \<open>
  What a displayed expression evaluates to: an operand (decimal digits, with an optional
  minus sign), one operator symbol, an operand. Division by zero has no value.
\<close>

definition is_digit :: "char \<Rightarrow> bool" where
  "is_digit c = (c \<in> set ''0123456789'')"

definition digit_val :: "char \<Rightarrow> nat" where
  "digit_val c = of_char c - 48"

definition read_nat :: "string \<Rightarrow> nat option" where
  "read_nat s = (if s \<noteq> [] \<and> list_all is_digit s
                 then Some (foldl (\<lambda>acc c. 10 * acc + digit_val c) 0 s) else None)"

definition read_int :: "string \<Rightarrow> int option" where
  "read_int s = (case s of
       [] \<Rightarrow> None
     | c # t \<Rightarrow> if c = CHR ''-'' then map_option (\<lambda>k. - int k) (read_nat t)
                else map_option int (read_nat s))"

definition read_op :: "char \<Rightarrow> Operator option" where
  "read_op c = (if c = CHR ''+'' then Some Plus else if c = CHR ''-'' then Some Minus
                else if c = CHR 0xD7 then Some Times else if c = CHR 0xF7 then Some Divide
                else None)"

definition apply_op :: "Operator \<Rightarrow> int \<Rightarrow> int \<Rightarrow> real option" where
  "apply_op op a b = (case op of
       Plus \<Rightarrow> Some (of_int a + of_int b)
     | Minus \<Rightarrow> Some (of_int a - of_int b)
     | Times \<Rightarrow> Some (of_int a * of_int b)
     | Divide \<Rightarrow> if b = 0 then None else Some (of_int a / of_int b))"

definition evalExpression :: "string \<Rightarrow> real option" where
  "evalExpression s =
    (let sign = (case s of [] \<Rightarrow> [] | c # t \<Rightarrow> if c = CHR ''-'' then [c] else []);
         body = drop (length sign) s;
         lhs = sign @ takeWhile is_digit body
     in case dropWhile is_digit body of
          [] \<Rightarrow> None
        | c # rhs \<Rightarrow>
            (case (read_int lhs, read_op c, read_int rhs) of
               (Some a, Some op, Some b) \<Rightarrow> apply_op op a b
             | _ \<Rightarrow> None))"

section \<open>BubbleSort.tsx: the game component\<close>

text \<open>
  The component state is one record: the \<open>useState\<close> variables, the two refs, the
  pending \<open>setTimeout\<close> callbacks, the position of the random source, and the exceptions
  that left a callback uncaught. Every callback (a click, a timer tick, a timeout) is
  one atomic transition: its setters are applied in program order, an updater runs
  once, its own result is applied before the setters called inside it, and the
  component re-renders before the next callback runs. A callback created by a render
  reads the state variables of that render; for the timeout scheduled by a click these
  are the values before the click. The two intervals and the timeouts are separate
  event sources: \<open>run\<close> fixes no order or rate between them, so what holds of every
  \<open>run\<close> holds whenever the callbacks fire. The timed runs defined after it add the
  clock: an interval fires every 1000 ms and a timeout when its delay has passed.
\<close>

datatype GameScreen = INSTRUCTIONS | PLAYING | COMPLETE

record RoundResult =
  round_r :: int
  correct :: int
  wrong :: int
  score :: int
  timeUsed :: int
  completed :: bool

text \<open>The variables that the closure \<open>endRound\<close> of one render captures.\<close>

record EndRoundEnv =
  env_round :: int
  env_correctCount :: int
  env_wrongCount :: int
  env_sessionTime :: int

record BubbleSortState =
  screen :: GameScreen
  round_s :: int
  sessionTime :: int
  roundTime_s :: int
  bubbles :: "BubbleData list"
  selectionOrder :: int
  roundResults :: "RoundResult list"
  correctCount :: int
  wrongCount :: int
  totalScore :: int
  processing :: bool
  roundStartRef :: int
  roundEndedRef :: bool
  timeouts :: "(nat \<times> EndRoundEnv) list"
  rngPos :: nat
  uncaught :: "js_error list"

definition initial_state :: "int \<Rightarrow> BubbleSortState" where
  "initial_state mounted =
    \<lparr>screen = INSTRUCTIONS, round_s = 1, sessionTime = SESSION_DURATION,
     roundTime_s = ROUND_TIME, bubbles = [], selectionOrder = 0, roundResults = [],
     correctCount = 0, wrongCount = 0, totalScore = 0, processing = False,
     roundStartRef = mounted, roundEndedRef = False, timeouts = [], rngPos = 0,
     uncaught = []\<rparr>"

definition current_env :: "BubbleSortState \<Rightarrow> EndRoundEnv" where
  "current_env s =
    \<lparr>env_round = round_s s, env_correctCount = correctCount s,
     env_wrongCount = wrongCount s, env_sessionTime = sessionTime s\<rparr>"

text \<open>The \<open>useMemo\<close> lookup of the difficulty, also made by \<open>startRound\<close>.\<close>

definition config_of :: "int \<Rightarrow> DifficultyConfig option" where
  "config_of roundNum =
    js_index DIFFICULTY_TABLE (min (roundNum - 1) (int (length DIFFICULTY_TABLE) - 1))"

text \<open>
  \<open>startRound\<close>: an exception of the lookup or of \<open>generateBubbles\<close> leaves the
  function before any of its setters ran.
\<close>

definition startRound :: "(nat \<Rightarrow> real) \<Rightarrow> int \<Rightarrow> int \<Rightarrow> BubbleSortState \<Rightarrow> BubbleSortState" where
  "startRound rnd roundNum now s =
    (case config_of roundNum of
       None \<Rightarrow> s\<lparr>uncaught := uncaught s @ [TypeError]\<rparr>
     | Some cfg \<Rightarrow>
         (case generateBubbles cfg roundNum rnd (rngPos s) of
            (Inl e, n') \<Rightarrow> s\<lparr>rngPos := n', uncaught := uncaught s @ [e]\<rparr>
          | (Inr bs, n') \<Rightarrow>
              s\<lparr>bubbles := bs, roundTime_s := roundTime cfg, selectionOrder := 0,
                correctCount := 0, wrongCount := 0, processing := False,
                roundEndedRef := False, roundStartRef := now, rngPos := n'\<rparr>))"

text \<open>\<open>Math.round(ms / 1000)\<close> rounds a half up.\<close>

definition round_seconds :: "int \<Rightarrow> int" where
  "round_seconds ms = (ms + 500) div 1000"

definition endRound ::
    "(nat \<Rightarrow> real) \<Rightarrow> EndRoundEnv \<Rightarrow> bool \<Rightarrow> int \<Rightarrow> BubbleSortState \<Rightarrow> BubbleSortState" where
  "endRound rnd env completed_arg now s =
    (if roundEndedRef s then s
     else
       (let timeUsed_v = round_seconds (now - roundStartRef s);
            roundScore = env_correctCount env - env_wrongCount env;
            s1 = s\<lparr>roundEndedRef := True,
                   totalScore := totalScore s + roundScore,
                   roundResults := roundResults s @
                     [\<lparr>round_r = env_round env, correct = env_correctCount env,
                       wrong = env_wrongCount env, score = roundScore,
                       timeUsed = timeUsed_v, completed = completed_arg\<rparr>]\<rparr>
        in if env_sessionTime env \<le> 0 \<or> env_round env \<ge> TOTAL_QUESTIONS
           then s1\<lparr>screen := COMPLETE\<rparr>
           else startRound rnd (env_round env + 1) now (s1\<lparr>round_s := round_s s1 + 1\<rparr>)))"

text \<open>The two intervals run only while the screen is \<open>PLAYING\<close>.\<close>

definition sessionTick :: "BubbleSortState \<Rightarrow> BubbleSortState" where
  "sessionTick s =
    (if screen s \<noteq> PLAYING then s
     else if sessionTime s \<le> 1 then s\<lparr>screen := COMPLETE, sessionTime := 0\<rparr>
     else s\<lparr>sessionTime := sessionTime s - 1\<rparr>)"

text \<open>The round interval calls \<open>endRoundRef.current\<close>, the closure of the last render.\<close>

definition roundTick :: "(nat \<Rightarrow> real) \<Rightarrow> int \<Rightarrow> BubbleSortState \<Rightarrow> BubbleSortState" where
  "roundTick rnd now s =
    (if screen s \<noteq> PLAYING then s
     else if roundTime_s s \<le> 1
       then endRound rnd (current_env s) False now (s\<lparr>roundTime_s := 0\<rparr>)
     else s\<lparr>roundTime_s := roundTime_s s - 1\<rparr>)"

text \<open>
  The updater of the round interval calls \<open>setRoundTime\<close> itself, through
  \<open>endRound\<close> and \<open>startRound\<close>, and returns 0. In \<open>roundTick\<close> the result 0 is
  applied first and the setter after it, so the next round starts with the round time of
  its configuration. When React computes the updater at the call, the setter is queued
  before the updater's own result, which then comes last: the next round starts with
  round time 0 and the next tick ends it. \<open>roundTick_eager\<close> is the callback in that
  order.
\<close>

definition roundTick_eager ::
    "(nat \<Rightarrow> real) \<Rightarrow> int \<Rightarrow> BubbleSortState \<Rightarrow> BubbleSortState" where
  "roundTick_eager rnd now s =
    (if screen s \<noteq> PLAYING then s
     else if roundTime_s s \<le> 1
       then (endRound rnd (current_env s) False now s)\<lparr>roundTime_s := 0\<rparr>
     else s\<lparr>roundTime_s := roundTime_s s - 1\<rparr>)"

text \<open>
  \<open>Array.prototype.sort\<close> is stable, as \<open>sort_key\<close> is. The comparator
  \<open>a.value - b.value\<close> orders by ascending value.
\<close>

definition handleBubbleClick :: "int \<Rightarrow> BubbleSortState \<Rightarrow> BubbleSortState" where
  "handleBubbleClick bubbleId s =
    (if processing s \<or> screen s \<noteq> PLAYING then s
     else
      (case find (\<lambda>b. id_b b = bubbleId) (bubbles s) of
         None \<Rightarrow> s
       | Some bubble \<Rightarrow>
          (if selected bubble then s
           else
            (case sort_key value_b (filter (\<lambda>b. \<not> selected b) (bubbles s)) of
               [] \<Rightarrow> s
             | first # others \<Rightarrow>
                (if id_b bubble = id_b first then
                   (let updated = map (\<lambda>b. if id_b b = bubbleId then b\<lparr>selected := True\<rparr> else b)
                                     (bubbles s);
                        s1 = s\<lparr>correctCount := correctCount s + 1,
                               selectionOrder := selectionOrder s + 1\<rparr>;
                        s2 = (if length (filter (\<lambda>b. \<not> selected b) updated) = 0
                              then s1\<lparr>processing := True,
                                     timeouts := timeouts s1 @
                                       [(CORRECT_DELAY_MS, current_env s)]\<rparr>
                              else s1)
                    in s2\<lparr>bubbles := updated\<rparr>)
                 else s\<lparr>wrongCount := wrongCount s + 1\<rparr>)))))"

definition handleStart :: "(nat \<Rightarrow> real) \<Rightarrow> int \<Rightarrow> BubbleSortState \<Rightarrow> BubbleSortState" where
  "handleStart rnd now s =
    startRound rnd 1 now
      (s\<lparr>screen := PLAYING, round_s := 1, sessionTime := SESSION_DURATION,
         roundResults := [], totalScore := 0\<rparr>)"

definition handleSubmit :: "int \<Rightarrow> BubbleSortState \<Rightarrow> BubbleSortState" where
  "handleSubmit now s =
    (let timeUsed_v = round_seconds (now - roundStartRef s);
         roundScore = correctCount s - wrongCount s
     in s\<lparr>totalScore := totalScore s + roundScore,
          roundResults := roundResults s @
            [\<lparr>round_r = round_s s, correct = correctCount s, wrong = wrongCount s,
              score = roundScore, timeUsed = timeUsed_v,
              completed = list_all selected (bubbles s)\<rparr>],
          screen := COMPLETE\<rparr>)"

text \<open>
  The oldest pending timeout fires: all of them have the same delay. It runs the
  \<open>endRound\<close> of the render that scheduled it, with the argument \<open>true\<close>.
\<close>

definition fireTimeout :: "(nat \<Rightarrow> real) \<Rightarrow> int \<Rightarrow> BubbleSortState \<Rightarrow> BubbleSortState" where
  "fireTimeout rnd now s =
    (case timeouts s of
       [] \<Rightarrow> s
     | (d, env) # rest \<Rightarrow> endRound rnd env True now (s\<lparr>timeouts := rest\<rparr>))"

text \<open>
  The events of the component, with the reading of \<open>Date.now()\<close> where the callback
  takes one. The start button is rendered on the instructions screen only, the bubbles
  and the submit button on the playing screen only.
\<close>

datatype Event =
    Start int
  | SessionTick
  | RoundTick int
  | Click int
  | Settle int
  | Submit int

fun step :: "(nat \<Rightarrow> real) \<Rightarrow> BubbleSortState \<Rightarrow> Event \<Rightarrow> BubbleSortState" where
  "step rnd s (Start now) = (if screen s = INSTRUCTIONS then handleStart rnd now s else s)"
| "step rnd s SessionTick = sessionTick s"
| "step rnd s (RoundTick now) = roundTick rnd now s"
| "step rnd s (Click bubbleId) = handleBubbleClick bubbleId s"
| "step rnd s (Settle now) = fireTimeout rnd now s"
| "step rnd s (Submit now) = (if screen s = PLAYING then handleSubmit now s else s)"

definition run :: "(nat \<Rightarrow> real) \<Rightarrow> Event list \<Rightarrow> BubbleSortState \<Rightarrow> BubbleSortState" where
  "run rnd evs s = foldl (step rnd) s evs"

section \<open>BubbleSort.tsx: the timers\<close>

text \<open>
  A timed run gives every callback the time in milliseconds at which it runs. The
  session interval is set when the screen becomes \<open>PLAYING\<close>, the round interval when
  the screen becomes \<open>PLAYING\<close> or the round changes (the dependencies of the two
  effects); both are cleared when the screen leaves \<open>PLAYING\<close>. A timeout is due
  \<open>CORRECT_DELAY_MS\<close> after the click that scheduled it and is never cleared. A timer
  fires when it is due: no callback runs at a time later than a pending due time, while
  clicks and the two buttons may come at any time. A round tick is taken in either
  order of its two updates of the round time.
\<close>

datatype Action = AStart | ASessionTick | ARoundTick bool | AClick int | ASettle | ASubmit

text \<open>The callback of an action run at time \<open>t\<close>, which is its reading of \<open>Date.now()\<close>.\<close>

fun perform :: "(nat \<Rightarrow> real) \<Rightarrow> nat \<Rightarrow> Action \<Rightarrow> BubbleSortState \<Rightarrow> BubbleSortState" where
  "perform rnd t AStart s = step rnd s (Start (int t))"
| "perform rnd t ASessionTick s = step rnd s SessionTick"
| "perform rnd t (ARoundTick eager) s =
    (if eager then roundTick_eager rnd (int t) s else step rnd s (RoundTick (int t)))"
| "perform rnd t (AClick b) s = step rnd s (Click b)"
| "perform rnd t ASettle s = step rnd s (Settle (int t))"
| "perform rnd t ASubmit s = step rnd s (Submit (int t))"

text \<open>
  The clock and the due times: of the next tick of each interval (\<open>None\<close> while it is
  not set) and of the pending timeouts, oldest first as in \<open>timeouts\<close>.
\<close>

record Timers =
  clock :: nat
  sessionDue :: "nat option"
  roundDue :: "nat option"
  timeoutDue :: "nat list"

definition initial_timers :: Timers where
  "initial_timers = \<lparr>clock = 0, sessionDue = None, roundDue = None, timeoutDue = []\<rparr>"

text \<open>
  An action may run at \<open>t\<close> when time does not go back, no due time has been passed,
  and a timer that fires is due at \<open>t\<close>.
\<close>

definition on_time :: "Timers \<Rightarrow> nat \<Rightarrow> Action \<Rightarrow> bool" where
  "on_time k t a \<longleftrightarrow>
     clock k \<le> t
     \<and> (case sessionDue k of None \<Rightarrow> True | Some d \<Rightarrow> t \<le> d)
     \<and> (case roundDue k of None \<Rightarrow> True | Some d \<Rightarrow> t \<le> d)
     \<and> list_all (\<lambda>d. t \<le> d) (timeoutDue k)
     \<and> (case a of
          ASessionTick \<Rightarrow> sessionDue k = Some t
        | ARoundTick eager \<Rightarrow> roundDue k = Some t
        | ASettle \<Rightarrow> (case timeoutDue k of [] \<Rightarrow> False | d # ds \<Rightarrow> d = t)
        | _ \<Rightarrow> True)"

text \<open>
  The timers after a callback that took the component from \<open>s\<close> to \<open>s'\<close>: the effects
  clear and set the intervals by the screen and the round, an interval that fired is due
  again 1000 ms later, a timeout that fired is gone, and a click that scheduled a
  timeout adds its due time.
\<close>

definition next_timers ::
    "Timers \<Rightarrow> nat \<Rightarrow> Action \<Rightarrow> BubbleSortState \<Rightarrow> BubbleSortState \<Rightarrow> Timers" where
  "next_timers k t a s s' =
    \<lparr>clock = t,
     sessionDue =
       (if screen s' \<noteq> PLAYING then None
        else if screen s \<noteq> PLAYING \<or> a = ASessionTick then Some (t + 1000)
        else sessionDue k),
     roundDue =
       (if screen s' \<noteq> PLAYING then None
        else if screen s \<noteq> PLAYING \<or> round_s s' \<noteq> round_s s
                \<or> a = ARoundTick True \<or> a = ARoundTick False
          then Some (t + 1000)
        else roundDue k),
     timeoutDue =
       (if a = ASettle then tl (timeoutDue k) else timeoutDue k)
       @ (if length (timeouts s') = Suc (length (timeouts s))
          then [t + CORRECT_DELAY_MS] else [])\<rparr>"

definition timed_step ::
    "(nat \<Rightarrow> real) \<Rightarrow> BubbleSortState \<times> Timers \<Rightarrow> nat \<times> Action
      \<Rightarrow> (BubbleSortState \<times> Timers) option" where
  "timed_step rnd st ta =
    (if on_time (snd st) (fst ta) (snd ta)
     then Some (perform rnd (fst ta) (snd ta) (fst st),
                next_timers (snd st) (fst ta) (snd ta) (fst st)
                  (perform rnd (fst ta) (snd ta) (fst st)))
     else None)"

fun timed_run ::
    "(nat \<Rightarrow> real) \<Rightarrow> (nat \<times> Action) list \<Rightarrow> BubbleSortState \<times> Timers
      \<Rightarrow> (BubbleSortState \<times> Timers) option" where
  "timed_run rnd [] st = Some st"
| "timed_run rnd (ta # tas) st =
    (case timed_step rnd st ta of None \<Rightarrow> None | Some st' \<Rightarrow> timed_run rnd tas st')"

text \<open>A timed run without its clock, as a sequence of events.\<close>

fun event_of :: "nat \<times> Action \<Rightarrow> Event" where
  "event_of (t, AStart) = Start (int t)"
| "event_of (t, ASessionTick) = SessionTick"
| "event_of (t, ARoundTick eager) = RoundTick (int t)"
| "event_of (t, AClick b) = Click b"
| "event_of (t, ASettle) = Settle (int t)"
| "event_of (t, ASubmit) = Submit (int t)"

section \<open>PipePuzzle.tsx: the client of the remote game\<close>

datatype Direction = UP | DOWN | LEFT | RIGHT

datatype TileType = STRAIGHT | CORNER | EMPTY

datatype GameStatus = STATUS_PLAYING | ANIMATING | WON | LOST

record Position =
  row :: int
  col :: int

record EntryExit = Position +
  direction :: Direction

text \<open>\<open>TileState\<close> and \<open>ApiTile\<close> declare the same fields.\<close>

record TileState =
  tile_id :: string
  tile_row :: int
  tile_col :: int
  tile_type :: TileType
  openings :: "Direction list"

type_synonym ApiTile = TileState
type_synonym GridState = "TileState list list"
type_synonym PathCell = Position

record GameState =
  grid :: GridState
  start_e :: EntryExit
  end_e :: EntryExit
  status :: GameStatus
  selectedTile :: "Position option"
  timeRemaining :: int
  attempts :: int
  moves :: int
  rotations :: int
  flips :: int

record SelectResponse =
  moves_r :: int

record GridResponse =
  grid_r :: "ApiTile list list"
  rotations_r :: "int option"
  flips_r :: "int option"

record SubmitResponse =
  valid :: bool
  status_r :: string
  path_r :: "PathCell list option"

text \<open>How a promise settles: with its value, or rejected with an error.\<close>

datatype 'a settled = Fulfilled 'a | Rejected string

datatype Request =
    SelectTile string int int
  | RotateTile string int int
  | FlipTile string int int
  | SubmitPath string

definition GAME_DURATION :: int where "GAME_DURATION = 240"
definition ANIMATION_STEP_MS :: nat where "ANIMATION_STEP_MS = 400"
definition ANIMATION_END_BUFFER_MS :: nat where "ANIMATION_END_BUFFER_MS = 800"

text \<open>
  The client: the state variables of \<open>PathfinderGame\<close>, the delays left on the pending
  timeouts of \<open>handleSubmit\<close> (they all run the same callback), and the console.
\<close>

record Client =
  sessionId :: string
  gameState :: GameState
  animationPath :: "PathCell list"
  pending :: "nat list"
  console :: "string list"

definition toGrid :: "ApiTile list list \<Rightarrow> GridState" where
  "toGrid apiGrid =
    map (\<lambda>r. map (\<lambda>t. \<lparr>tile_id = tile_id t, tile_row = tile_row t, tile_col = tile_col t,
                         tile_type = tile_type t, openings = openings t\<rparr>) r) apiGrid"

text \<open>
  Each handler returns the new client and the request it issued, if any. An empty
  session id is falsy.
\<close>

definition handleTileClick :: "Position \<Rightarrow> Client \<Rightarrow> Client \<times> Request option" where
  "handleTileClick pos c =
    (if status (gameState c) \<noteq> STATUS_PLAYING \<or> sessionId c = [] then (c, None)
     else (c\<lparr>gameState := (gameState c)\<lparr>selectedTile := Some pos,
                                          moves := moves (gameState c) + 1\<rparr>\<rparr>,
           Some (SelectTile (sessionId c) (row pos) (col pos))))"

text \<open>The promise of \<open>selectTile\<close> has a \<open>catch\<close> only.\<close>

definition selectSettled :: "SelectResponse settled \<Rightarrow> Client \<Rightarrow> Client" where
  "selectSettled outcome c =
    (case outcome of
       Fulfilled res \<Rightarrow> c
     | Rejected err \<Rightarrow> c\<lparr>console := console c @ [''Select tile failed: '' @ err]\<rparr>)"

definition handleRotate :: "Client \<Rightarrow> Client \<times> Request option" where
  "handleRotate c =
    (if status (gameState c) \<noteq> STATUS_PLAYING \<or> sessionId c = [] then (c, None)
     else case selectedTile (gameState c) of
       None \<Rightarrow> (c, None)
     | Some pos \<Rightarrow> (c, Some (RotateTile (sessionId c) (row pos) (col pos))))"

definition rotateSettled :: "GridResponse settled \<Rightarrow> Client \<Rightarrow> Client" where
  "rotateSettled outcome c =
    (case outcome of
       Fulfilled res \<Rightarrow>
         c\<lparr>gameState := (gameState c)\<lparr>grid := toGrid (grid_r res),
             rotations := (case rotations_r res of
                             Some r \<Rightarrow> r
                           | None \<Rightarrow> rotations (gameState c) + 1)\<rparr>\<rparr>
     | Rejected err \<Rightarrow> c\<lparr>console := console c @ [''Rotate failed: '' @ err]\<rparr>)"

definition handleFlip :: "Client \<Rightarrow> Client \<times> Request option" where
  "handleFlip c =
    (if status (gameState c) \<noteq> STATUS_PLAYING \<or> sessionId c = [] then (c, None)
     else case selectedTile (gameState c) of
       None \<Rightarrow> (c, None)
     | Some pos \<Rightarrow> (c, Some (FlipTile (sessionId c) (row pos) (col pos))))"

definition flipSettled :: "GridResponse settled \<Rightarrow> Client \<Rightarrow> Client" where
  "flipSettled outcome c =
    (case outcome of
       Fulfilled res \<Rightarrow>
         c\<lparr>gameState := (gameState c)\<lparr>grid := toGrid (grid_r res),
             flips := (case flips_r res of
                         Some f \<Rightarrow> f
                       | None \<Rightarrow> flips (gameState c) + 1)\<rparr>\<rparr>
     | Rejected err \<Rightarrow> c\<lparr>console := console c @ [''Flip failed: '' @ err]\<rparr>)"

definition handleSubmitPath :: "Client \<Rightarrow> Client \<times> Request option" where
  "handleSubmitPath c =
    (if status (gameState c) \<noteq> STATUS_PLAYING \<or> sessionId c = [] then (c, None)
     else (c, Some (SubmitPath (sessionId c))))"

text \<open>An empty path array is truthy; \<open>None\<close> is a missing path.\<close>

definition submitSettled :: "SubmitResponse settled \<Rightarrow> Client \<Rightarrow> Client" where
  "submitSettled outcome c =
    (case outcome of
       Fulfilled res \<Rightarrow>
         (case (if valid res then path_r res else None) of
            Some p \<Rightarrow>
              c\<lparr>animationPath := p,
                gameState := (gameState c)\<lparr>status := ANIMATING,
                                           attempts := attempts (gameState c) + 1\<rparr>,
                pending := pending c @
                  [length p * ANIMATION_STEP_MS + ANIMATION_END_BUFFER_MS]\<rparr>
          | None \<Rightarrow>
              c\<lparr>gameState := (gameState c)\<lparr>attempts := attempts (gameState c) + 1\<rparr>\<rparr>)
     | Rejected err \<Rightarrow> c\<lparr>console := console c @ [''Submit failed: '' @ err]\<rparr>)"

text \<open>The callback of the timeout of \<open>handleSubmit\<close>.\<close>

definition animationDone :: "Client \<Rightarrow> Client" where
  "animationDone c = c\<lparr>animationPath := [], gameState := (gameState c)\<lparr>status := WON\<rparr>\<rparr>"

text \<open>
  \<open>elapse dt\<close> lets \<open>dt\<close> milliseconds pass with timers that fire on time: a timeout
  whose delay has passed runs its callback, the others have \<open>dt\<close> less to wait.
\<close>

definition elapse :: "nat \<Rightarrow> Client \<Rightarrow> Client" where
  "elapse dt c =
    (let due = filter (\<lambda>d. d \<le> dt) (pending c);
         waiting = map (\<lambda>d. d - dt) (filter (\<lambda>d. dt < d) (pending c));
         c' = (if due = [] then c else animationDone c)
     in c'\<lparr>pending := waiting\<rparr>)"

text \<open>The countdown interval runs only while the status is playing.\<close>

definition countdownTick :: "Client \<Rightarrow> Client" where
  "countdownTick c =
    (if status (gameState c) \<noteq> STATUS_PLAYING then c
     else if timeRemaining (gameState c) \<le> 1
       then c\<lparr>gameState := (gameState c)\<lparr>timeRemaining := 0, status := LOST\<rparr>\<rparr>
     else c\<lparr>gameState := (gameState c)\<lparr>timeRemaining := timeRemaining (gameState c) - 1\<rparr>\<rparr>)"

section \<open>Auxiliary definitions\<close>

text \<open>The bubble that the loop of \<open>generateBubbles\<close> pushes for slot \<open>i\<close>.\<close>

definition slot_bubble ::
    "int \<Rightarrow> (string \<times> int) \<Rightarrow> (int \<times> int \<times> int) \<Rightarrow> BubbleData" where
  "slot_bubble i e xys =
    \<lparr>id_b = i, expression = fst e, value_b = snd e, selected = False,
     offsetX = fst xys, offsetY = fst (snd xys), size_b = snd (snd xys)\<rparr>"

text \<open>A random source for the examples: 0, 0.1, ..., 0.9, 0, 0.1, ...\<close>

definition example_rnd :: "nat \<Rightarrow> real" where
  "example_rnd k = real (k mod 10) / 10"

text \<open>
  The rule of the scorer, in the words of the specification: the stimulus at position
  \<open>i\<close> is the one to select next when it is not yet consumed and its value is the
  minimum among the unconsumed stimuli, the first-generated one among equal values.
\<close>

definition expected_next :: "BubbleData list \<Rightarrow> nat \<Rightarrow> bool" where
  "expected_next bs i \<longleftrightarrow>
     i < length bs \<and> \<not> selected (bs ! i) \<and>
     (\<forall>j<length bs. \<not> selected (bs ! j) \<longrightarrow>
        value_b (bs ! i) < value_b (bs ! j)
        \<or> (value_b (bs ! i) = value_b (bs ! j) \<and> i \<le> j))"

text \<open>The \<open>map\<close> of a correct selection: every bubble of that id becomes selected.\<close>

definition mark_selected :: "int \<Rightarrow> BubbleData list \<Rightarrow> BubbleData list" where
  "mark_selected k bs = map (\<lambda>b. if id_b b = k then b\<lparr>selected := True\<rparr> else b) bs"

text \<open>The state after a correct selection of the bubble id \<open>k\<close>.\<close>

definition correct_pick :: "int \<Rightarrow> BubbleSortState \<Rightarrow> BubbleSortState" where
  "correct_pick k s =
    (if filter (\<lambda>b. \<not> selected b) (mark_selected k (bubbles s)) = []
     then s\<lparr>correctCount := correctCount s + 1, selectionOrder := selectionOrder s + 1,
            processing := True,
            timeouts := timeouts s @ [(CORRECT_DELAY_MS, current_env s)],
            bubbles := mark_selected k (bubbles s)\<rparr>
     else s\<lparr>correctCount := correctCount s + 1, selectionOrder := selectionOrder s + 1,
            bubbles := mark_selected k (bubbles s)\<rparr>)"

text \<open>The first round that \<open>example_rnd\<close> generates, and the game just started on it.\<close>

definition example_bubbles :: "BubbleData list" where
  "example_bubbles =
    [\<lparr>id_b = 0, expression = ''3+5'', value_b = 8, selected = False,
      offsetX = 50, offsetY = 20, size_b = 130\<rparr>,
     \<lparr>id_b = 1, expression = ''9+11'', value_b = 20, selected = False,
      offsetX = 28, offsetY = 58, size_b = 130\<rparr>,
     \<lparr>id_b = 2, expression = ''15+17'', value_b = 32, selected = False,
      offsetX = 72, offsetY = 58, size_b = 130\<rparr>]"

definition example_started :: BubbleSortState where
  "example_started =
    \<lparr>screen = PLAYING, round_s = 1, sessionTime = 420, roundTime_s = 15,
     bubbles = example_bubbles, selectionOrder = 0, roundResults = [],
     correctCount = 0, wrongCount = 0, totalScore = 0, processing = False,
     roundStartRef = 0, roundEndedRef = False, timeouts = [], rngPos = 9, uncaught = []\<rparr>"

text \<open>
  What \<open>startRound\<close> generates for a round number from a position of the random
  source: the bubbles, and the position afterwards.
\<close>

definition generated_bubbles :: "(nat \<Rightarrow> real) \<Rightarrow> int \<Rightarrow> nat \<Rightarrow> BubbleData list" where
  "generated_bubbles rnd r n =
    (case config_of r of
       None \<Rightarrow> []
     | Some cfg \<Rightarrow> (case fst (generateBubbles cfg r rnd n) of Inl e \<Rightarrow> [] | Inr bs \<Rightarrow> bs))"

definition generated_pos :: "(nat \<Rightarrow> real) \<Rightarrow> int \<Rightarrow> nat \<Rightarrow> nat" where
  "generated_pos rnd r n =
    (case config_of r of None \<Rightarrow> n | Some cfg \<Rightarrow> snd (generateBubbles cfg r rnd n))"



text \<open>The example game after one correct and one incorrect selection.\<close>

definition example_played :: BubbleSortState where
  "example_played =
    example_started
      \<lparr>bubbles := [(example_bubbles ! 0)\<lparr>selected := True\<rparr>, example_bubbles ! 1,
                   example_bubbles ! 2],
       selectionOrder := 1, correctCount := 1, wrongCount := 1\<rparr>"

text \<open>
  The example game with one second left on the round clock and all three bubbles
  selected in ascending order: the end of the round is scheduled.
\<close>

definition example_completed :: BubbleSortState where
  "example_completed =
    example_started
      \<lparr>roundTime_s := 1,
       bubbles := map (\<lambda>b. b\<lparr>selected := True\<rparr>) example_bubbles,
       selectionOrder := 3, correctCount := 3, processing := True,
       timeouts := [(CORRECT_DELAY_MS,
         \<lparr>env_round = 1, env_correctCount = 2, env_wrongCount = 0, env_sessionTime = 420\<rparr>)]\<rparr>"

text \<open>A client in play, with a session and no tile selected.\<close>

definition example_client :: Client where
  "example_client =
    \<lparr>sessionId = ''s1'',
     gameState = \<lparr>grid = [], start_e = \<lparr>row = 0, col = 0, direction = LEFT\<rparr>,
                  end_e = \<lparr>row = 0, col = 0, direction = LEFT\<rparr>, status = STATUS_PLAYING,
                  selectedTile = None, timeRemaining = GAME_DURATION, attempts = 0,
                  moves = 0, rotations = 0, flips = 0\<rparr>,
     animationPath = [], pending = [], console = []\<rparr>"








text \<open>\<open>n\<close> ticks of both intervals, one second apart, the first at time \<open>t\<close>.\<close>

definition tick_pairs :: "nat \<Rightarrow> nat \<Rightarrow> (nat \<times> Action) list" where
  "tick_pairs t n
     = concat (map (\<lambda>i. [(t + 1000 * i, ASessionTick), (t + 1000 * i, ARoundTick False)]) [0..<n])"

text \<open>
  The example game with every timer firing when due: all three stimuli of round 1 are
  selected 100 ms before the round clock runs out, so the scheduled end of the round
  is due 150 ms after the last round tick.
\<close>

definition late_actions :: "(nat \<times> Action) list" where
  "late_actions =
    [(0, AStart)] @ tick_pairs 1000 14
    @ [(14900, AClick 0), (14900, AClick 1), (14900, AClick 2),
       (15000, ASessionTick), (15000, ARoundTick False), (15150, ASettle)]"

section \<open>Decimal printing and reading\<close>

lemma digit_cases: "d < 10 \<Longrightarrow> d = 0 \<or> d = 1 \<or> d = 2 \<or> d = 3 \<or> d = 4 \<or> d = 5 \<or> d = 6 \<or> d = 7 \<or> d = 8 \<or> d = (9::nat)"
  by arith

lemma digit_char_props:
  assumes "d < 10"
  shows "is_digit (digit_char d)" and "digit_val (digit_char d) = d"
    and "digit_char d \<noteq> CHR ''-''"
  using digit_cases [OF assms]
  by (auto simp: is_digit_def digit_char_def digit_val_def)

lemma show_nat_digits: "list_all is_digit (show_nat n)"
proof (induction n rule: show_nat.induct)
  case (1 n)
  show ?case
  proof (cases "n < 10")
    case True
    then show ?thesis by (subst show_nat.simps) (simp add: digit_char_props)
  next
    case False
    with 1 have "list_all is_digit (show_nat (n div 10))" by simp
    moreover have "is_digit (digit_char (n mod 10))" by (simp add: digit_char_props)
    ultimately show ?thesis using False by (subst show_nat.simps) simp
  qed
qed

lemma show_nat_nonempty: "show_nat n \<noteq> []"
  by (subst show_nat.simps) simp

lemma show_nat_value: "foldl (\<lambda>acc c. 10 * acc + digit_val c) 0 (show_nat n) = n"
proof (induction n rule: show_nat.induct)
  case (1 n)
  show ?case
  proof (cases "n < 10")
    case True
    then show ?thesis by (subst show_nat.simps) (simp add: digit_char_props)
  next
    case False
    with 1 have "foldl (\<lambda>acc c. 10 * acc + digit_val c) 0 (show_nat (n div 10)) = n div 10"
      by simp
    then show ?thesis using False
      by (subst show_nat.simps) (simp add: digit_char_props)
  qed
qed

lemma read_nat_show_nat: "read_nat (show_nat n) = Some n"
  by (simp add: read_nat_def show_nat_digits show_nat_nonempty show_nat_value)

lemma show_nat_hd_not_minus: "hd (show_nat n) \<noteq> CHR ''-''"
proof -
  have "is_digit (hd (show_nat n))"
    using show_nat_digits [of n] show_nat_nonempty [of n]
    by (cases "show_nat n") simp_all
  then show ?thesis by (auto simp: is_digit_def)
qed

lemma read_int_show_int: "read_int (show_int i) = Some i"
proof (cases "i < 0")
  case True
  then show ?thesis by (simp add: read_int_def show_int_def read_nat_show_nat)
next
  case False
  obtain c t where ct: "show_nat (nat i) = c # t"
    using show_nat_nonempty [of "nat i"] by (cases "show_nat (nat i)") auto
  with show_nat_hd_not_minus [of "nat i"] have "c \<noteq> CHR ''-''" by simp
  with False ct read_nat_show_nat [of "nat i"] show ?thesis
    by (simp add: read_int_def show_int_def)
qed

lemma op_char_not_digit: "\<not> is_digit (op_char op)"
  by (cases op) (simp_all add: op_char_def is_digit_def)

lemma read_op_op_char: "read_op (op_char op) = Some op"
  by (cases op) (simp_all add: op_char_def read_op_def)

lemma takeWhile_digits: "list_all P xs \<Longrightarrow> \<not> P c \<Longrightarrow> takeWhile P (xs @ c # ys) = xs"
  by (induction xs) auto

lemma dropWhile_digits: "list_all P xs \<Longrightarrow> \<not> P c \<Longrightarrow> dropWhile P (xs @ c # ys) = c # ys"
  by (induction xs) auto

lemma evalExpression_template:
  "evalExpression (template a op b) = apply_op op a b"
proof -
  obtain c t where ct: "show_nat (nat a) = c # t"
    using show_nat_nonempty [of "nat a"] by (cases "show_nat (nat a)") auto
  with show_nat_hd_not_minus [of "nat a"] have c: "c \<noteq> CHR ''-''" by simp
  show ?thesis
  proof (cases "a < 0")
    case True
    then have s: "template a op b = CHR ''-'' # (show_nat (nat (- a)) @ op_char op # show_int b)"
      by (simp add: template_def show_int_def)
    have li: "read_int (CHR ''-'' # show_nat (nat (- a))) = Some a"
      using read_int_show_int [of a] True by (simp add: show_int_def)
    show ?thesis
      unfolding evalExpression_def s
      by (simp add: takeWhile_digits dropWhile_digits show_nat_digits op_char_not_digit
          li read_op_op_char read_int_show_int)
  next
    case False
    then have s: "template a op b = c # (t @ op_char op # show_int b)"
      by (simp add: template_def show_int_def ct)
    have d: "list_all is_digit (c # t)" using show_nat_digits [of "nat a"] ct by simp
    have li: "read_int (c # t) = Some a"
      using read_int_show_int [of a] False by (simp add: show_int_def ct)
    have tw: "takeWhile is_digit ((c # t) @ op_char op # show_int b) = c # t"
      by (rule takeWhile_digits [OF d op_char_not_digit])
    have dw: "dropWhile is_digit ((c # t) @ op_char op # show_int b) = op_char op # show_int b"
      by (rule dropWhile_digits [OF d op_char_not_digit])
    show ?thesis
      unfolding evalExpression_def s using c tw dw
      by (simp add: li read_op_op_char read_int_show_int)
  qed
qed

section \<open>The expression generator\<close>

lemma floor_draw_range:
  fixes r :: real and k :: int
  assumes "0 \<le> r" "r < 1" "1 \<le> k"
  shows "0 \<le> \<lfloor>r * of_int k\<rfloor>" and "\<lfloor>r * of_int k\<rfloor> < k"
proof -
  have "0 \<le> r * of_int k" using assms by simp
  then show "0 \<le> \<lfloor>r * of_int k\<rfloor>" by simp
  have "r * of_int k < 1 * of_int k" using assms by (intro mult_strict_right_mono) simp_all
  then show "\<lfloor>r * of_int k\<rfloor> < k" by (simp add: floor_less_iff)
qed

lemma randomInt_range:
  assumes "0 \<le> r" "r < 1" "lo \<le> hi"
  shows "lo \<le> randomInt lo hi r" and "randomInt lo hi r \<le> hi"
  using floor_draw_range [OF assms(1,2), of "hi - lo + 1"] assms(3)
  by (simp_all add: randomInt_def)

text \<open>
  C6. With a maximal operand of at least 2 (every entry of the difficulty table has one)
  and random draws in \<open>[0, 1)\<close>, the displayed expression of a generated stimulus
  evaluates to exactly its stored value, under every operator. When the drawn operator
  is the division, the expression shows a dividend \<open>a\<close> and a divisor \<open>b\<close> with
  \<open>b\<close> in \<open>[2, min(maxNum, 10)]\<close>, the stored quotient in \<open>[1, min(maxNum, 12)]\<close>
  and \<open>a = b * quotient\<close>.
\<close>

theorem generateExpression_exact:
  assumes "2 \<le> maxNum" and "\<forall>k. 0 \<le> rnd k \<and> rnd k < 1"
  shows "evalExpression (fst (fst (generateExpression ops maxNum rnd n)))
           = Some (of_int (snd (fst (generateExpression ops maxNum rnd n))))
         \<and> (js_index ops \<lfloor>rnd n * of_int (int (length ops))\<rfloor> = Some Divide \<longrightarrow>
            (\<exists>a b. fst (fst (generateExpression ops maxNum rnd n)) = template a Divide b
               \<and> 2 \<le> b \<and> b \<le> min maxNum 10
               \<and> 1 \<le> snd (fst (generateExpression ops maxNum rnd n))
               \<and> snd (fst (generateExpression ops maxNum rnd n)) \<le> min maxNum 12
               \<and> a = b * snd (fst (generateExpression ops maxNum rnd n))))"
proof -
  have r1: "0 \<le> rnd (n + 1)" "rnd (n + 1) < 1" and r2: "0 \<le> rnd (n + 2)" "rnd (n + 2) < 1"
    using assms(2) by simp_all
  have b: "2 \<le> randomInt 2 (min maxNum 10) (rnd (n + 1))"
          "randomInt 2 (min maxNum 10) (rnd (n + 1)) \<le> min maxNum 10"
    using randomInt_range [OF r1, of 2 "min maxNum 10"] assms(1) by simp_all
  have v: "1 \<le> randomInt 1 (min maxNum 12) (rnd (n + 2))"
          "randomInt 1 (min maxNum 12) (rnd (n + 2)) \<le> min maxNum 12"
    using randomInt_range [OF r2, of 1 "min maxNum 12"] assms(1) by simp_all
  show ?thesis
  proof (cases "js_index ops \<lfloor>rnd n * of_int (int (length ops))\<rfloor>")
    case None
    then show ?thesis
      by (simp add: generateExpression_def Let_def evalExpression_template apply_op_def)
  next
    case (Some op)
    show ?thesis
    proof (cases op)
      case Divide
      have "evalExpression (fst (fst (generateExpression ops maxNum rnd n)))
           = Some (of_int (snd (fst (generateExpression ops maxNum rnd n))))"
        using Some Divide b
        by (simp add: generateExpression_def Let_def evalExpression_template apply_op_def)
      moreover have "\<exists>a b. fst (fst (generateExpression ops maxNum rnd n)) = template a Divide b
               \<and> 2 \<le> b \<and> b \<le> min maxNum 10
               \<and> 1 \<le> snd (fst (generateExpression ops maxNum rnd n))
               \<and> snd (fst (generateExpression ops maxNum rnd n)) \<le> min maxNum 12
               \<and> a = b * snd (fst (generateExpression ops maxNum rnd n))"
        using Some Divide b v
        by (intro exI [of _ "randomInt 2 (min maxNum 10) (rnd (n + 1))
                * randomInt 1 (min maxNum 12) (rnd (n + 2))"]
              exI [of _ "randomInt 2 (min maxNum 10) (rnd (n + 1))"])
           (simp add: generateExpression_def Let_def)
      ultimately show ?thesis by blast
    qed (use Some in \<open>simp_all add: generateExpression_def Let_def evalExpression_template apply_op_def\<close>)
  qed
qed

theorem generateExpression_exact_witness:
  "(2::int) \<le> 20 \<and> (\<forall>k::nat. (0::real) \<le> 3 / 4 \<and> (3::real) / 4 < 1)
   \<and> generateExpression [Plus, Minus, Times, Divide] 20 (\<lambda>k. 3 / 4) 0 = ((''80'' @ [CHR 0xF7] @ ''8'', 10), 3)
   \<and> evalExpression (''80'' @ [CHR 0xF7] @ ''8'') = Some 10"
proof -
  have h1: "(2::int) \<le> 20" by simp
  have h2: "\<forall>k::nat. 0 \<le> (\<lambda>k. 3 / 4 :: real) k \<and> (\<lambda>k. 3 / 4 :: real) k < 1" by simp
  have g: "generateExpression [Plus, Minus, Times, Divide] 20 (\<lambda>k. 3 / 4) 0
            = ((''80'' @ [CHR 0xF7] @ ''8'', 10), 3)"
    by (simp add: generateExpression_def js_index_def randomInt_def template_def show_int_def
        show_nat.simps digit_char_def op_char_def)
  show ?thesis
    using generateExpression_exact [OF h1 h2, of "[Plus, Minus, Times, Divide]" 0] g by simp
qed

section \<open>The round generator\<close>

lemma retry_draw_fresh:
  "retry_draw ops maxNum rnd used att n = (e, k, n') \<Longrightarrow> k < 50 \<Longrightarrow> snd e \<notin> used"
proof (induction ops maxNum rnd used att n rule: retry_draw.induct)
  case (1 ops maxNum rnd used att n)
  show ?case
  proof (cases "snd (fst (generateExpression ops maxNum rnd n)) \<in> used \<and> att + 1 < 50")
    case True
    with "1.prems"(1)
    have "retry_draw ops maxNum rnd used (att + 1) (snd (generateExpression ops maxNum rnd n))
            = (e, k, n')"
      by (subst (asm) retry_draw.simps) (simp add: Let_def)
    with True "1.IH" "1.prems"(2) show ?thesis by simp
  next
    case False
    with "1.prems" show ?thesis
      by (subst (asm) retry_draw.simps) (auto simp: Let_def)
  qed
qed

lemma retry_draw_attempts:
  "retry_draw ops maxNum rnd used att n = (e, k, n') \<Longrightarrow> att < k \<and> k \<le> max 50 (att + 1)"
proof (induction ops maxNum rnd used att n rule: retry_draw.induct)
  case (1 ops maxNum rnd used att n)
  show ?case
  proof (cases "snd (fst (generateExpression ops maxNum rnd n)) \<in> used \<and> att + 1 < 50")
    case True
    with "1.prems"(1)
    have "retry_draw ops maxNum rnd used (att + 1) (snd (generateExpression ops maxNum rnd n))
            = (e, k, n')"
      by (subst (asm) retry_draw.simps) (simp add: Let_def)
    with True "1.IH" have "att + 1 < k \<and> k \<le> max 50 (att + 1 + 1)" by simp
    with True show ?thesis by auto
  next
    case False
    with "1.prems" show ?thesis
      by (subst (asm) retry_draw.simps) (auto simp: Let_def)
  qed
qed

lemma fill_slots_done:
  "\<not> i < bubbleCount cfg \<Longrightarrow> fill_slots cfg layout rnd i used acc n = (Inr acc, n)"
  by (subst fill_slots.simps) simp

lemma fill_slots_step:
  assumes "i < bubbleCount cfg" "0 \<le> i" "i < int (length l)"
    and "retry_draw (operators cfg) (maxNumber cfg) rnd used 0 n = (e, k, n')"
  shows "fill_slots cfg (Some l) rnd i used acc n =
           fill_slots cfg (Some l) rnd (i + 1) (insert (snd e) used)
             (acc @ [(slot_bubble i e (l ! nat i), k)]) n'"
  using assms
  by (subst fill_slots.simps) (simp add: js_index_def Let_def slot_bubble_def split: prod.splits)

lemma fill_slots_result:
  assumes "bubbleCount cfg \<le> int (length l)" "0 \<le> i"
  shows "\<exists>out n'. fill_slots cfg (Some l) rnd i used acc n = (Inr (acc @ out), n')
      \<and> length out = nat (bubbleCount cfg - i)
      \<and> map (\<lambda>p. id_b (fst p)) out = [i..bubbleCount cfg - 1]
      \<and> (\<forall>p\<in>set out. \<not> selected (fst p))
      \<and> (\<forall>p\<in>set out. snd p \<le> 50)
      \<and> (\<forall>p\<in>set out. snd p < 50 \<longrightarrow> value_b (fst p) \<notin> used)
      \<and> ((\<forall>p\<in>set out. snd p < 50) \<longrightarrow> distinct (map (\<lambda>p. value_b (fst p)) out))"
  using assms(2)
proof (induction "nat (bubbleCount cfg - i)" arbitrary: i used acc n)
  case 0
  then have "\<not> i < bubbleCount cfg" by simp
  then show ?case by (simp add: fill_slots_done)
next
  case (Suc m)
  then have lt: "i < bubbleCount cfg" by linarith
  with assms(1) have il: "i < int (length l)" by simp
  obtain e k n1 where d: "retry_draw (operators cfg) (maxNumber cfg) rnd used 0 n = (e, k, n1)"
    by (metis prod_cases3)
  let ?b = "(slot_bubble i e (l ! nat i), k)"
  have m: "m = nat (bubbleCount cfg - (i + 1))" using Suc.hyps(2) by linarith
  from Suc.hyps(1) [OF m, of "insert (snd e) used" "acc @ [?b]" n1] Suc.prems
  obtain out n' where o:
    "fill_slots cfg (Some l) rnd (i + 1) (insert (snd e) used) (acc @ [?b]) n1
       = (Inr ((acc @ [?b]) @ out), n')"
    "length out = nat (bubbleCount cfg - (i + 1))"
    "map (\<lambda>p. id_b (fst p)) out = [i + 1..bubbleCount cfg - 1]"
    "\<forall>p\<in>set out. \<not> selected (fst p)"
    "\<forall>p\<in>set out. snd p \<le> 50"
    "\<forall>p\<in>set out. snd p < 50 \<longrightarrow> value_b (fst p) \<notin> insert (snd e) used"
    "(\<forall>p\<in>set out. snd p < 50) \<longrightarrow> distinct (map (\<lambda>p. value_b (fst p)) out)"
    by auto
  have 1: "fill_slots cfg (Some l) rnd i used acc n = (Inr (acc @ (?b # out)), n')"
    using fill_slots_step [OF lt Suc.prems il d] o(1) by simp
  have 2: "length (?b # out) = nat (bubbleCount cfg - i)" using o(2) lt by simp
  have 3: "map (\<lambda>p. id_b (fst p)) (?b # out) = [i..bubbleCount cfg - 1]"
    using o(3) lt by (simp add: upto_rec1 [of i] slot_bubble_def)
  have 4: "\<forall>p\<in>set (?b # out). \<not> selected (fst p)"
    using o(4) by (simp add: slot_bubble_def)
  have 5: "\<forall>p\<in>set (?b # out). snd p \<le> 50"
    using o(5) retry_draw_attempts [OF d] by auto
  have 6: "\<forall>p\<in>set (?b # out). snd p < 50 \<longrightarrow> value_b (fst p) \<notin> used"
    using o(6) retry_draw_fresh [OF d] by (auto simp: slot_bubble_def)
  have 7: "(\<forall>p\<in>set (?b # out). snd p < 50) \<longrightarrow> distinct (map (\<lambda>p. value_b (fst p)) (?b # out))"
    using o(6,7) by (auto simp: slot_bubble_def)
  from 1 2 3 4 5 6 7 show ?case by blast
qed

lemma layout_defined:
  assumes "1 \<le> r"
  shows "\<exists>l. js_index SCATTER_POSITIONS (js_rem (r - 1) (int (length SCATTER_POSITIONS))) = Some l
           \<and> length l = 3"
proof -
  have len: "int (length SCATTER_POSITIONS) = 4" by (simp add: SCATTER_POSITIONS_def)
  have "(r - 1) mod 4 = 0 \<or> (r - 1) mod 4 = 1 \<or> (r - 1) mod 4 = 2 \<or> (r - 1) mod 4 = 3"
    by presburger
  then show ?thesis
    unfolding len using assms
    by (auto simp: js_rem_def js_index_def SCATTER_POSITIONS_def)
qed



lemma generateBubblesTrace_result:
  assumes "1 \<le> round_no" and "0 \<le> bubbleCount cfg" and "bubbleCount cfg \<le> 3"
  shows "\<exists>slots n'. generateBubblesTrace cfg round_no rnd n = (Inr slots, n')
          \<and> int (length slots) = bubbleCount cfg
          \<and> map (\<lambda>p. id_b (fst p)) slots = [0..bubbleCount cfg - 1]
          \<and> (\<forall>p\<in>set slots. \<not> selected (fst p))
          \<and> (\<forall>p\<in>set slots. snd p \<le> 50)
          \<and> ((\<forall>p\<in>set slots. snd p < 50) \<longrightarrow> distinct (map (\<lambda>p. value_b (fst p)) slots))"
proof -
  obtain l where l: "js_index SCATTER_POSITIONS (js_rem (round_no - 1) (int (length SCATTER_POSITIONS))) = Some l"
    "length l = 3"
    using layout_defined [OF assms(1)] by blast
  have "bubbleCount cfg \<le> int (length l)" using l(2) assms(3) by simp
  from fill_slots_result [OF this, of 0 rnd "{}" "[]" n] assms(2) l(1)
  show ?thesis
    unfolding generateBubblesTrace_def by auto
qed

text \<open>Every entry of the difficulty table meets the bounds the theorems ask for.\<close>

lemma difficulty_table_bounds:
  assumes "cfg \<in> set DIFFICULTY_TABLE"
  shows "bubbleCount cfg = 3" and "2 \<le> maxNumber cfg" and "operators cfg \<noteq> []"
  using assms by (auto simp: DIFFICULTY_TABLE_def)

lemma js_index_in_set: "js_index xs i = Some x \<Longrightarrow> x \<in> set xs"
proof -
  assume a: "js_index xs i = Some x"
  then have "0 \<le> i \<and> i < int (length xs)" and "x = xs ! nat i"
    by (auto simp: js_index_def split: if_splits)
  then have "nat i < length xs" by linarith
  then show ?thesis using \<open>x = xs ! nat i\<close> by simp
qed

lemma config_of_in_table: "config_of r = Some cfg \<Longrightarrow> cfg \<in> set DIFFICULTY_TABLE"
  unfolding config_of_def by (rule js_index_in_set)

text \<open>
  C5. A round generated for a round number of at least 1 and a configuration of at most
  three bubbles (every entry of the difficulty table has exactly three) never fails:
  it returns as many stimuli as configured, whatever the random draws. No slot takes
  more than 50 attempts, and when every slot took fewer than 50, the target values of
  the round are pairwise distinct.
\<close>

theorem generateBubbles_distinct_unless_capped:
  assumes "1 \<le> round_no" and "0 \<le> bubbleCount cfg" and "bubbleCount cfg \<le> 3"
  shows "\<exists>slots n'. generateBubblesTrace cfg round_no rnd n = (Inr slots, n')
          \<and> generateBubbles cfg round_no rnd n = (Inr (map fst slots), n')
          \<and> int (length slots) = bubbleCount cfg
          \<and> (\<forall>p\<in>set slots. snd p \<le> 50)
          \<and> ((\<forall>p\<in>set slots. snd p < 50) \<longrightarrow> distinct (map (\<lambda>p. value_b (fst p)) slots))"
proof -
  from generateBubblesTrace_result [OF assms, of rnd n]
  obtain slots n' where t: "generateBubblesTrace cfg round_no rnd n = (Inr slots, n')"
    and r: "int (length slots) = bubbleCount cfg" "\<forall>p\<in>set slots. snd p \<le> 50"
      "(\<forall>p\<in>set slots. snd p < 50) \<longrightarrow> distinct (map (\<lambda>p. value_b (fst p)) slots)"
    by blast
  have "generateBubbles cfg round_no rnd n = (Inr (map fst slots), n')"
    by (simp add: generateBubbles_def t)
  with t r show ?thesis by blast
qed

lemma example_ge0: "generateExpression [Plus] 20 example_rnd 0 = ((''3+5'', 8), 3)"
  by (simp add: generateExpression_def js_index_def randomInt_def template_def show_int_def
      show_nat.simps digit_char_def op_char_def example_rnd_def)

lemma example_ge3: "generateExpression [Plus] 20 example_rnd 3 = ((''9+11'', 20), 6)"
  by (simp add: generateExpression_def js_index_def randomInt_def template_def show_int_def
      show_nat.simps digit_char_def op_char_def example_rnd_def)

lemma example_ge6: "generateExpression [Plus] 20 example_rnd 6 = ((''15+17'', 32), 9)"
  by (simp add: generateExpression_def js_index_def randomInt_def template_def show_int_def
      show_nat.simps digit_char_def op_char_def example_rnd_def)

lemma example_round1_trace:
  "generateBubblesTrace (DIFFICULTY_TABLE ! 0) 1 example_rnd 0 =
    (Inr [(\<lparr>id_b = 0, expression = ''3+5'', value_b = 8, selected = False,
            offsetX = 50, offsetY = 20, size_b = 130\<rparr>, 1),
          (\<lparr>id_b = 1, expression = ''9+11'', value_b = 20, selected = False,
            offsetX = 28, offsetY = 58, size_b = 130\<rparr>, 1),
          (\<lparr>id_b = 2, expression = ''15+17'', value_b = 32, selected = False,
            offsetX = 72, offsetY = 58, size_b = 130\<rparr>, 1)], 9)"
proof -
  let ?cfg = "\<lparr>bubbleCount = 3, operators = [Plus], maxNumber = 20, roundTime = ROUND_TIME\<rparr>"
  let ?l = "[(50, 20, 130), (28, 58, 130), (72, 58, 130)] :: (int \<times> int \<times> int) list"
  have c: "DIFFICULTY_TABLE ! 0 = ?cfg" by (simp add: DIFFICULTY_TABLE_def)
  have lay: "js_index SCATTER_POSITIONS (js_rem (1 - 1) (int (length SCATTER_POSITIONS))) = Some ?l"
    by (simp add: js_index_def js_rem_def SCATTER_POSITIONS_def)
  have d0: "retry_draw (operators ?cfg) (maxNumber ?cfg) example_rnd {} 0 0 = ((''3+5'', 8), 1, 3)"
    by (subst retry_draw.simps) (simp add: example_ge0)
  have d1: "retry_draw (operators ?cfg) (maxNumber ?cfg) example_rnd (insert 8 {}) 0 3
              = ((''9+11'', 20), 1, 6)"
    by (subst retry_draw.simps) (simp add: example_ge3)
  have d2: "retry_draw (operators ?cfg) (maxNumber ?cfg) example_rnd (insert 20 (insert 8 {})) 0 6
              = ((''15+17'', 32), 1, 9)"
    by (subst retry_draw.simps) (simp add: example_ge6)
  show ?thesis
    unfolding generateBubblesTrace_def c lay
    apply (subst fill_slots_step [OF _ _ _ d0]; simp?)
    apply (subst fill_slots_step [OF _ _ _ d1]; simp?)
    apply (subst fill_slots_step [OF _ _ _ d2]; simp?)
    apply (subst fill_slots_done; simp add: slot_bubble_def)
    done
qed

theorem generateBubbles_distinct_unless_capped_witness:
  "(1::int) \<le> 1 \<and> 0 \<le> bubbleCount (DIFFICULTY_TABLE ! 0) \<and> bubbleCount (DIFFICULTY_TABLE ! 0) \<le> 3
   \<and> map snd (projr (fst (generateBubblesTrace (DIFFICULTY_TABLE ! 0) 1 example_rnd 0))) = [1, 1, 1]
   \<and> map value_b (projr (fst (generateBubbles (DIFFICULTY_TABLE ! 0) 1 example_rnd 0))) = [8, 20, 32]
   \<and> distinct (map value_b (projr (fst (generateBubbles (DIFFICULTY_TABLE ! 0) 1 example_rnd 0))))"
proof -
  have h: "(1::int) \<le> 1" "0 \<le> bubbleCount (DIFFICULTY_TABLE ! 0)"
          "bubbleCount (DIFFICULTY_TABLE ! 0) \<le> 3"
    by (simp_all add: DIFFICULTY_TABLE_def)
  show ?thesis
    using h generateBubbles_distinct_unless_capped [OF h, of example_rnd 0]
    by (auto simp: example_round1_trace generateBubbles_def)
qed

text \<open>
  A round where the cap is exhausted: a random source that always gives 0 makes every
  draw \<open>1+1\<close>. The second and the third slot use all 50 attempts and accept the
  duplicate value; the round still has its three stimuli.
\<close>

lemma constant_source_expression: "generateExpression [Plus] 20 (\<lambda>k. 0) n = ((''1+1'', 2), n + 3)"
  by (simp add: generateExpression_def js_index_def randomInt_def template_def show_int_def
      show_nat.simps digit_char_def op_char_def)

lemma constant_source_retry:
  assumes "2 \<in> used" and "att < 50"
  shows "retry_draw [Plus] 20 (\<lambda>k. 0) used att n = ((''1+1'', 2), 50, n + 3 * (50 - att))"
  using assms(2)
proof (induction "50 - att" arbitrary: att n)
  case 0
  then show ?case by simp
next
  case (Suc m)
  show ?case
  proof (cases "att + 1 < 50")
    case True
    have "retry_draw [Plus] 20 (\<lambda>k. 0) used (att + 1) (n + 3)
            = ((''1+1'', 2), 50, n + 3 + 3 * (50 - (att + 1)))"
      using Suc.hyps(1) [of "att + 1" "n + 3"] Suc.hyps(2) True by simp
    then show ?thesis
      using True assms(1) by (subst retry_draw.simps) (simp add: constant_source_expression)
  next
    case False
    with Suc.prems have "att = 49" by simp
    then show ?thesis
      by (subst retry_draw.simps) (simp add: constant_source_expression)
  qed
qed

lemma generateBubbles_cap_exhausted_example:
  "generateBubblesTrace (DIFFICULTY_TABLE ! 0) 1 (\<lambda>k. 0) 0 =
    (Inr [(\<lparr>id_b = 0, expression = ''1+1'', value_b = 2, selected = False,
            offsetX = 50, offsetY = 20, size_b = 130\<rparr>, 1),
          (\<lparr>id_b = 1, expression = ''1+1'', value_b = 2, selected = False,
            offsetX = 28, offsetY = 58, size_b = 130\<rparr>, 50),
          (\<lparr>id_b = 2, expression = ''1+1'', value_b = 2, selected = False,
            offsetX = 72, offsetY = 58, size_b = 130\<rparr>, 50)], 303)"
proof -
  let ?cfg = "\<lparr>bubbleCount = 3, operators = [Plus], maxNumber = 20, roundTime = ROUND_TIME\<rparr>"
  let ?l = "[(50, 20, 130), (28, 58, 130), (72, 58, 130)] :: (int \<times> int \<times> int) list"
  have c: "DIFFICULTY_TABLE ! 0 = ?cfg" by (simp add: DIFFICULTY_TABLE_def)
  have lay: "js_index SCATTER_POSITIONS (js_rem (1 - 1) (int (length SCATTER_POSITIONS))) = Some ?l"
    by (simp add: js_index_def js_rem_def SCATTER_POSITIONS_def)
  have d0: "retry_draw (operators ?cfg) (maxNumber ?cfg) (\<lambda>k. 0) {} 0 0 = ((''1+1'', 2), 1, 3)"
    by (subst retry_draw.simps) (simp add: constant_source_expression)
  have d1: "retry_draw (operators ?cfg) (maxNumber ?cfg) (\<lambda>k. 0) (insert 2 {}) 0 3
              = ((''1+1'', 2), 50, 153)"
    using constant_source_retry [of "insert 2 {}" 0 3] by simp
  have d2: "retry_draw (operators ?cfg) (maxNumber ?cfg) (\<lambda>k. 0) (insert 2 {}) 0 153
              = ((''1+1'', 2), 50, 303)"
    using constant_source_retry [of "insert 2 {}" 0 153] by simp
  show ?thesis
    unfolding generateBubblesTrace_def c lay
    apply (subst fill_slots_step [OF _ _ _ d0]; simp?)
    apply (subst fill_slots_step [OF _ _ _ d1]; simp?)
    apply (subst fill_slots_step [OF _ _ _ d2]; simp?)
    apply (subst fill_slots_done; simp add: slot_bubble_def)
    done
qed

section \<open>The remote session protocol\<close>

lemma toGrid_id: "toGrid g = g"
  by (simp add: toGrid_def map_idI)

text \<open>
  C2, as stated, fails for \<open>select\<close>: the tile click sets the selection and counts the
  move when it issues the call, and the rejection does not take them back. After a
  rejected \<open>select\<close> the selected tile and the move counter differ from what they were
  before the click.
\<close>

theorem select_rejected_keeps_selection:
  "\<not> (let c = fst (handleTileClick \<lparr>row = 0, col = 0\<rparr> example_client);
          c' = selectSettled (Rejected ''offline'') c
      in selectedTile (gameState c') = selectedTile (gameState example_client)
         \<and> moves (gameState c') = moves (gameState example_client))"
  by (simp add: handleTileClick_def selectSettled_def example_client_def)

text \<open>
  C2, amended. While playing with a session: issuing a \<open>rotate\<close> or a \<open>flip\<close> changes
  nothing, and a rejected \<open>select\<close>, \<open>rotate\<close> or \<open>flip\<close> only adds a line to the
  console, so after a rejected \<open>rotate\<close> or \<open>flip\<close> the grid, the selected tile and
  the counters are what they were before the call. A tile click selects the tile and
  adds one to \<open>moves\<close> when it issues the call, whatever becomes of the call.
\<close>

theorem rejected_call_state:
  assumes "status (gameState c) = STATUS_PLAYING" and "sessionId c \<noteq> []"
  shows "fst (handleRotate c) = c
       \<and> rotateSettled (Rejected err) c = c\<lparr>console := console c @ [''Rotate failed: '' @ err]\<rparr>
       \<and> fst (handleFlip c) = c
       \<and> flipSettled (Rejected err) c = c\<lparr>console := console c @ [''Flip failed: '' @ err]\<rparr>
       \<and> selectSettled (Rejected err) c = c\<lparr>console := console c @ [''Select tile failed: '' @ err]\<rparr>
       \<and> fst (handleTileClick pos c)
           = c\<lparr>gameState := (gameState c)\<lparr>selectedTile := Some pos,
                                              moves := moves (gameState c) + 1\<rparr>\<rparr>"
  using assms
  by (simp add: handleRotate_def rotateSettled_def handleFlip_def flipSettled_def
      handleTileClick_def selectSettled_def split: option.splits)

theorem rejected_call_state_witness:
  "status (gameState example_client) = STATUS_PLAYING \<and> sessionId example_client \<noteq> []
   \<and> gameState (rotateSettled (Rejected ''offline'') (fst (handleRotate example_client)))
       = gameState example_client
   \<and> gameState (flipSettled (Rejected ''offline'') (fst (handleFlip example_client)))
       = gameState example_client
   \<and> gameState (selectSettled (Rejected ''offline'') example_client) = gameState example_client
   \<and> console (selectSettled (Rejected ''offline'') example_client)
       = [''Select tile failed: offline'']
   \<and> moves (gameState (fst (handleTileClick \<lparr>row = 0, col = 0\<rparr> example_client))) = 1"
proof -
  have h: "status (gameState example_client) = STATUS_PLAYING" "sessionId example_client \<noteq> []"
    by (simp_all add: example_client_def)
  have m: "moves (gameState example_client) = 0" "console example_client = []"
    by (simp_all add: example_client_def)
  show ?thesis
    using h m rejected_call_state [OF h, of "''offline''" "\<lparr>row = 0, col = 0\<rparr>"]
    by simp
qed

text \<open>
  C7, as stated, fails for \<open>select\<close>: the response of a successful \<open>select\<close> is never
  read, so a \<open>moves\<close> value carried by it does not become the local counter.
\<close>

theorem select_ignores_response_moves:
  "\<not> (let c = fst (handleTileClick \<lparr>row = 0, col = 0\<rparr> example_client);
          c' = selectSettled (Fulfilled \<lparr>moves_r = 7\<rparr>) c
      in moves (gameState c') = moves_r \<lparr>moves_r = 7\<rparr>)"
  by (simp add: handleTileClick_def selectSettled_def example_client_def)

text \<open>
  C7, amended. A successful \<open>rotate\<close> (\<open>flip\<close>) replaces the local grid by the grid
  of the response, unchanged, and sets \<open>rotations\<close> (\<open>flips\<close>) to the counter of the
  response when it carries one, to the previous local value plus one otherwise; nothing
  else changes. A successful \<open>select\<close> changes nothing when it settles: the tile click
  has added one to \<open>moves\<close> when it issued the call.
\<close>

theorem successful_call_counters:
  assumes "status (gameState c) = STATUS_PLAYING" and "sessionId c \<noteq> []"
  shows "rotateSettled (Fulfilled res) c
           = c\<lparr>gameState := (gameState c)\<lparr>grid := grid_r res,
                  rotations := (case rotations_r res of Some r \<Rightarrow> r
                                | None \<Rightarrow> rotations (gameState c) + 1)\<rparr>\<rparr>
       \<and> flipSettled (Fulfilled res) c
           = c\<lparr>gameState := (gameState c)\<lparr>grid := grid_r res,
                  flips := (case flips_r res of Some f \<Rightarrow> f
                            | None \<Rightarrow> flips (gameState c) + 1)\<rparr>\<rparr>
       \<and> selectSettled (Fulfilled sel) c = c
       \<and> fst (handleTileClick pos c)
           = c\<lparr>gameState := (gameState c)\<lparr>selectedTile := Some pos,
                                              moves := moves (gameState c) + 1\<rparr>\<rparr>"
  using assms
  by (simp add: rotateSettled_def flipSettled_def selectSettled_def handleTileClick_def toGrid_id)

theorem successful_call_counters_witness:
  "status (gameState example_client) = STATUS_PLAYING \<and> sessionId example_client \<noteq> []
   \<and> rotations (gameState (rotateSettled
        (Fulfilled \<lparr>grid_r = [], rotations_r = Some 5, flips_r = None\<rparr>) example_client)) = 5
   \<and> flips (gameState (flipSettled
        (Fulfilled \<lparr>grid_r = [], rotations_r = Some 5, flips_r = None\<rparr>) example_client)) = 1
   \<and> selectSettled (Fulfilled \<lparr>moves_r = 7\<rparr>) example_client = example_client
   \<and> moves (gameState (fst (handleTileClick \<lparr>row = 0, col = 0\<rparr> example_client))) = 1"
proof -
  have h: "status (gameState example_client) = STATUS_PLAYING" "sessionId example_client \<noteq> []"
    by (simp_all add: example_client_def)
  have m: "moves (gameState example_client) = 0" "flips (gameState example_client) = 0"
    by (simp_all add: example_client_def)
  show ?thesis
    using h m successful_call_counters [OF h,
        of "\<lparr>grid_r = [], rotations_r = Some 5, flips_r = None\<rparr>" "\<lparr>moves_r = 7\<rparr>"
           "\<lparr>row = 0, col = 0\<rparr>"]
    by simp
qed

lemma elapse_single:
  "pending c = [d] \<Longrightarrow>
    elapse dt c = (if d \<le> dt then (animationDone c)\<lparr>pending := []\<rparr> else c\<lparr>pending := [d - dt]\<rparr>)"
  by (simp add: elapse_def Let_def)

text \<open>
  C8. An accepted submit with a path of length \<open>L\<close>, with no other timeout pending,
  puts the controller in the \<open>ANIMATING\<close> state and schedules one timeout with the
  delay \<open>L * ANIMATION_STEP_MS + ANIMATION_END_BUFFER_MS\<close>. With timers that fire on
  time the status stays \<open>ANIMATING\<close> until that delay has passed and is \<open>WON\<close> from
  then on: not yet \<open>WON\<close> before \<open>L\<close> ticks, and \<open>WON\<close> once \<open>L\<close> ticks, the buffer
  and one more tick have passed.
\<close>

theorem accepted_submit_animates_then_wins:
  assumes "valid res" and "path_r res = Some p" and "pending c = []"
  shows "status (gameState (submitSettled (Fulfilled res) c)) = ANIMATING
       \<and> animationPath (submitSettled (Fulfilled res) c) = p
       \<and> pending (submitSettled (Fulfilled res) c)
           = [length p * ANIMATION_STEP_MS + ANIMATION_END_BUFFER_MS]
       \<and> (\<forall>dt. status (gameState (elapse dt (submitSettled (Fulfilled res) c)))
              = (if dt < length p * ANIMATION_STEP_MS + ANIMATION_END_BUFFER_MS
                 then ANIMATING else WON))
       \<and> (\<forall>dt. dt < length p * ANIMATION_STEP_MS
              \<longrightarrow> status (gameState (elapse dt (submitSettled (Fulfilled res) c))) \<noteq> WON)
       \<and> (\<forall>dt. length p * ANIMATION_STEP_MS + ANIMATION_END_BUFFER_MS + ANIMATION_STEP_MS \<le> dt
              \<longrightarrow> status (gameState (elapse dt (submitSettled (Fulfilled res) c))) = WON)"
proof -
  let ?c = "submitSettled (Fulfilled res) c"
  let ?d = "length p * ANIMATION_STEP_MS + ANIMATION_END_BUFFER_MS"
  have s: "status (gameState ?c) = ANIMATING" and a: "animationPath ?c = p"
    and q: "pending ?c = [?d]"
    using assms by (simp_all add: submitSettled_def)
  have e: "status (gameState (elapse dt ?c)) = (if dt < ?d then ANIMATING else WON)" for dt
    using s by (simp add: elapse_single [OF q] animationDone_def)
  show ?thesis using s a q e by simp
qed

theorem accepted_submit_animates_then_wins_witness:
  "valid \<lparr>valid = True, status_r = ''WON'',
          path_r = Some [\<lparr>row = 0, col = 0\<rparr>, \<lparr>row = 0, col = 1\<rparr>, \<lparr>row = 1, col = 1\<rparr>]\<rparr>
   \<and> pending example_client = []
   \<and> pending (submitSettled (Fulfilled \<lparr>valid = True, status_r = ''WON'',
          path_r = Some [\<lparr>row = 0, col = 0\<rparr>, \<lparr>row = 0, col = 1\<rparr>, \<lparr>row = 1, col = 1\<rparr>]\<rparr>)
        example_client) = [2000]
   \<and> status (gameState (elapse 1999 (submitSettled (Fulfilled \<lparr>valid = True, status_r = ''WON'',
          path_r = Some [\<lparr>row = 0, col = 0\<rparr>, \<lparr>row = 0, col = 1\<rparr>, \<lparr>row = 1, col = 1\<rparr>]\<rparr>)
        example_client))) = ANIMATING
   \<and> status (gameState (elapse 2000 (submitSettled (Fulfilled \<lparr>valid = True, status_r = ''WON'',
          path_r = Some [\<lparr>row = 0, col = 0\<rparr>, \<lparr>row = 0, col = 1\<rparr>, \<lparr>row = 1, col = 1\<rparr>]\<rparr>)
        example_client))) = WON"
proof -
  let ?res = "\<lparr>valid = True, status_r = ''WON'',
          path_r = Some [\<lparr>row = 0, col = 0\<rparr>, \<lparr>row = 0, col = 1\<rparr>, \<lparr>row = 1, col = 1\<rparr>]\<rparr>"
  have h: "valid ?res"
    "path_r ?res = Some [\<lparr>row = 0, col = 0\<rparr>, \<lparr>row = 0, col = 1\<rparr>, \<lparr>row = 1, col = 1\<rparr>]"
    "pending example_client = []"
    by (simp_all add: example_client_def)
  show ?thesis
    using h accepted_submit_animates_then_wins [OF h]
    by (simp add: ANIMATION_STEP_MS_def ANIMATION_END_BUFFER_MS_def)
qed

section \<open>The selection scorer\<close>

lemma expected_next_unique:
  "expected_next bs i \<Longrightarrow> expected_next bs j \<Longrightarrow> i = j"
proof -
  assume i: "expected_next bs i" and j: "expected_next bs j"
  from i j have "value_b (bs ! i) < value_b (bs ! j)
      \<or> (value_b (bs ! i) = value_b (bs ! j) \<and> i \<le> j)"
    by (simp add: expected_next_def)
  moreover from i j have "value_b (bs ! j) < value_b (bs ! i)
      \<or> (value_b (bs ! j) = value_b (bs ! i) \<and> j \<le> i)"
    by (simp add: expected_next_def)
  ultimately show "i = j" by auto
qed

lemma first_unselected_min:
  assumes "sort_key value_b (filter (\<lambda>b. \<not> selected b) bs) = h # rest"
  shows "\<exists>i. expected_next bs i \<and> bs ! i = h"
proof -
  let ?us = "filter (\<lambda>b. \<not> selected b) bs"
  have srt: "sorted (map value_b (h # rest))"
    using sorted_sort_key [of value_b ?us] assms by simp
  have st: "set ?us = set (h # rest)"
    using set_sort [of value_b ?us] assms by simp
  have least: "value_b h \<le> value_b x" if "x \<in> set bs" "\<not> selected x" for x
  proof -
    from that have "x \<in> set (h # rest)" using st by auto
    with srt show ?thesis by auto
  qed
  have "filter (\<lambda>y. value_b y = value_b h) ?us
          = filter (\<lambda>y. value_b y = value_b h) (h # rest)"
    using sort_key_stable [of value_b "value_b h" ?us] assms by simp
  then have "filter (\<lambda>b. \<not> selected b \<and> value_b b = value_b h) bs
          = h # filter (\<lambda>y. value_b y = value_b h) rest"
    by (simp add: conj_commute)
  then obtain pre post where bs: "bs = pre @ h # post"
      and pre: "\<forall>u\<in>set pre. \<not> (\<not> selected u \<and> value_b u = value_b h)"
      and h: "\<not> selected h"
    by (auto simp: filter_eq_Cons_iff)
  let ?i = "length pre"
  have hi: "bs ! ?i = h" and il: "?i < length bs" using bs by simp_all
  have "value_b h < value_b (bs ! j) \<or> (value_b h = value_b (bs ! j) \<and> ?i \<le> j)"
    if j: "j < length bs" and u: "\<not> selected (bs ! j)" for j
  proof (cases "j < ?i")
    case True
    then have "bs ! j \<in> set pre" using bs by (simp add: nth_append)
    with pre u have "value_b (bs ! j) \<noteq> value_b h" by blast
    moreover have "value_b h \<le> value_b (bs ! j)" using least j u by simp
    ultimately show ?thesis by simp
  next
    case False
    moreover have "value_b h \<le> value_b (bs ! j)" using least j u by simp
    ultimately show ?thesis by auto
  qed
  then have "expected_next bs ?i"
    using hi il h by (simp add: expected_next_def)
  with hi show ?thesis by blast
qed

lemma find_by_id:
  assumes "distinct (map id_b bs)" and "i < length bs"
  shows "find (\<lambda>b. id_b b = id_b (bs ! i)) bs = Some (bs ! i)"
proof -
  have "id_b (bs ! j) \<noteq> id_b (bs ! i)" if "j < i" for j
    using nth_eq_iff_index_eq [of "map id_b bs" j i] assms that by simp
  then show ?thesis using assms(2) by (auto simp: find_Some_iff)
qed

lemma id_eq_index:
  assumes "distinct (map id_b bs)" and "i < length bs" and "j < length bs"
  shows "id_b (bs ! i) = id_b (bs ! j) \<longleftrightarrow> i = j"
  using nth_eq_iff_index_eq [of "map id_b bs" i j] assms by simp

lemma handleBubbleClick_unselected:
  assumes "screen s = PLAYING" "\<not> processing s" "distinct (map id_b (bubbles s))"
    and "i < length (bubbles s)" "\<not> selected (bubbles s ! i)"
  shows "handleBubbleClick (id_b (bubbles s ! i)) s =
           (if expected_next (bubbles s) i then correct_pick (id_b (bubbles s ! i)) s
            else s\<lparr>wrongCount := wrongCount s + 1\<rparr>)"
proof -
  let ?bs = "bubbles s"
  let ?b = "?bs ! i"
  have f: "find (\<lambda>b. id_b b = id_b ?b) ?bs = Some ?b"
    by (rule find_by_id [OF assms(3,4)])
  have "?b \<in> set (filter (\<lambda>b. \<not> selected b) ?bs)" using assms(4,5) by simp
  then have "sort_key value_b (filter (\<lambda>b. \<not> selected b) ?bs) \<noteq> []"
    by (metis empty_iff empty_set set_sort)
  then obtain h rest where hr: "sort_key value_b (filter (\<lambda>b. \<not> selected b) ?bs) = h # rest"
    by (cases "sort_key value_b (filter (\<lambda>b. \<not> selected b) ?bs)") auto
  from first_unselected_min [OF hr] obtain i0 where i0: "expected_next ?bs i0" "?bs ! i0 = h"
    by blast
  have i0l: "i0 < length ?bs" using i0(1) by (simp add: expected_next_def)
  have iff: "id_b ?b = id_b h \<longleftrightarrow> expected_next ?bs i"
    using id_eq_index [OF assms(3,4) i0l] i0 expected_next_unique by auto
  show ?thesis
    using assms(1,2,5) f hr iff
    by (simp add: handleBubbleClick_def correct_pick_def mark_selected_def Let_def)
qed

lemma run_Nil: "run rnd [] s = s"
  by (simp add: run_def)

lemma run_Cons: "run rnd (e # es) s = run rnd es (step rnd s e)"
  by (simp add: run_def)

lemma run_append: "run rnd (es @ fs) s = run rnd fs (run rnd es s)"
  by (simp add: run_def)

lemma unselected_after_mark:
  "filter (\<lambda>b. \<not> selected b) (mark_selected k bs)
     = filter (\<lambda>b. id_b b \<noteq> k) (filter (\<lambda>b. \<not> selected b) bs)"
  by (induction bs) (auto simp: mark_selected_def)

lemma ids_mark_selected: "map id_b (mark_selected k bs) = map id_b bs"
  by (induction bs) (auto simp: mark_selected_def)

lemma distinct_ids_sorted_unselected:
  assumes "distinct (map id_b bs)"
  shows "distinct (map id_b (sort_key value_b (filter (\<lambda>b. \<not> selected b) bs)))"
proof -
  have "distinct (map id_b (filter (\<lambda>b. \<not> selected b) bs))"
    using assms by (rule distinct_map_filter)
  then show ?thesis by (simp add: distinct_map)
qed

lemma sorted_rest_after_pick:
  assumes "distinct (map id_b bs)"
    and "sort_key value_b (filter (\<lambda>b. \<not> selected b) bs) = h # rest"
  shows "sort_key value_b (filter (\<lambda>b. \<not> selected b) (mark_selected (id_b h) bs)) = rest"
proof -
  have d: "distinct (map id_b (h # rest))"
    using distinct_ids_sorted_unselected [OF assms(1)] assms(2) by simp
  then have r: "filter (\<lambda>b. id_b b \<noteq> id_b h) rest = rest"
    by (auto simp: filter_id_conv) (metis imageI)
  have "sort_key value_b (filter (\<lambda>b. \<not> selected b) (mark_selected (id_b h) bs))
          = filter (\<lambda>b. id_b b \<noteq> id_b h) (sort_key value_b (filter (\<lambda>b. \<not> selected b) bs))"
    by (simp add: unselected_after_mark filter_sort)
  also have "\<dots> = rest" using r by (simp add: assms(2))
  finally show ?thesis .
qed

lemma ascending_picks:
  assumes "screen s = PLAYING" "\<not> processing s" "distinct (map id_b (bubbles s))"
    and "sort_key value_b (filter (\<lambda>b. \<not> selected b) (bubbles s)) = order" "order \<noteq> []"
  shows "correctCount (run rnd (map (\<lambda>b. Click (id_b b)) order) s)
           = correctCount s + int (length order)
       \<and> wrongCount (run rnd (map (\<lambda>b. Click (id_b b)) order) s) = wrongCount s
       \<and> filter (\<lambda>b. \<not> selected b) (bubbles (run rnd (map (\<lambda>b. Click (id_b b)) order) s)) = []
       \<and> processing (run rnd (map (\<lambda>b. Click (id_b b)) order) s)
       \<and> timeouts (run rnd (map (\<lambda>b. Click (id_b b)) order) s)
           = timeouts s @ [(CORRECT_DELAY_MS,
               (current_env s)\<lparr>env_correctCount := correctCount s + int (length order) - 1\<rparr>)]"
  using assms
proof (induction order arbitrary: s)
  case Nil
  then show ?case by simp
next
  case (Cons h rest)
  let ?bs = "bubbles s"
  from first_unselected_min [OF Cons.prems(4)]
  obtain i where i: "expected_next ?bs i" "?bs ! i = h" by blast
  then have il: "i < length ?bs" and iu: "\<not> selected (?bs ! i)"
    by (simp_all add: expected_next_def)
  have click: "handleBubbleClick (id_b h) s = correct_pick (id_b h) s"
    using handleBubbleClick_unselected [OF Cons.prems(1,2,3) il iu] i by simp
  have rest: "sort_key value_b (filter (\<lambda>b. \<not> selected b) (mark_selected (id_b h) ?bs)) = rest"
    by (rule sorted_rest_after_pick [OF Cons.prems(3,4)])
  show ?case
  proof (cases "rest = []")
    case True
    with rest have "length (filter (\<lambda>b. \<not> selected b) (mark_selected (id_b h) ?bs)) = 0"
      by (metis length_sort list.size(3))
    then have e: "filter (\<lambda>b. \<not> selected b) (mark_selected (id_b h) ?bs) = []" by simp
    show ?thesis
      using True e
      by (simp add: run_Cons run_Nil click correct_pick_def current_env_def)
  next
    case False
    with rest have ne: "filter (\<lambda>b. \<not> selected b) (mark_selected (id_b h) ?bs) \<noteq> []"
      by auto
    let ?s1 = "correct_pick (id_b h) s"
    have s1: "?s1 = s\<lparr>correctCount := correctCount s + 1,
                       selectionOrder := selectionOrder s + 1,
                       bubbles := mark_selected (id_b h) ?bs\<rparr>"
      using ne by (simp add: correct_pick_def)
    have p: "screen ?s1 = PLAYING" "\<not> processing ?s1" "distinct (map id_b (bubbles ?s1))"
      "sort_key value_b (filter (\<lambda>b. \<not> selected b) (bubbles ?s1)) = rest"
      using Cons.prems(1,2,3) rest by (simp_all add: s1 ids_mark_selected)
    have env: "(current_env ?s1)\<lparr>env_correctCount := x\<rparr> = (current_env s)\<lparr>env_correctCount := x\<rparr>"
      for x by (simp add: s1 current_env_def)
    have f: "correctCount ?s1 = correctCount s + 1" "wrongCount ?s1 = wrongCount s"
      "timeouts ?s1 = timeouts s"
      by (simp_all add: s1)
    from Cons.IH [OF p False] show ?thesis
      by (simp add: run_Cons click f env)
  qed
qed


text \<open>
  C4. In an active round (playing, no completion scheduled, bubble ids distinct, as
  \<open>generateBubbles\<close> makes them), selecting the stimulus at position \<open>i\<close> is counted
  correct exactly when it is the one to select next: unconsumed, of minimal value among
  the unconsumed, first-generated among equal values. From the start of a round (no
  stimulus consumed, both counters zero), selecting all stimuli in ascending order of
  value gives \<open>correctCount\<close> equal to the number of stimuli and \<open>wrongCount\<close> zero,
  consumes every stimulus, and schedules the end of the round after \<open>CORRECT_DELAY_MS\<close>.
\<close>

theorem selection_scoring:
  assumes "screen s = PLAYING" and "\<not> processing s" and "distinct (map id_b (bubbles s))"
  shows "(\<forall>i<length (bubbles s).
            (correctCount (handleBubbleClick (id_b (bubbles s ! i)) s) = correctCount s + 1)
              = expected_next (bubbles s) i)
       \<and> (bubbles s \<noteq> [] \<and> (\<forall>b\<in>set (bubbles s). \<not> selected b)
            \<and> correctCount s = 0 \<and> wrongCount s = 0 \<longrightarrow>
          correctCount (run rnd (map (\<lambda>b. Click (id_b b)) (sort_key value_b (bubbles s))) s)
             = int (length (bubbles s))
          \<and> wrongCount (run rnd (map (\<lambda>b. Click (id_b b)) (sort_key value_b (bubbles s))) s) = 0
          \<and> (\<forall>b\<in>set (bubbles
                 (run rnd (map (\<lambda>b. Click (id_b b)) (sort_key value_b (bubbles s))) s)). selected b)
          \<and> processing (run rnd (map (\<lambda>b. Click (id_b b)) (sort_key value_b (bubbles s))) s)
          \<and> timeouts (run rnd (map (\<lambda>b. Click (id_b b)) (sort_key value_b (bubbles s))) s)
              = timeouts s @ [(CORRECT_DELAY_MS,
                  (current_env s)\<lparr>env_correctCount := int (length (bubbles s)) - 1\<rparr>)])"
proof (intro conjI allI impI)
  fix i assume il: "i < length (bubbles s)"
  show "(correctCount (handleBubbleClick (id_b (bubbles s ! i)) s) = correctCount s + 1)
          = expected_next (bubbles s) i"
  proof (cases "selected (bubbles s ! i)")
    case True
    have "find (\<lambda>b. id_b b = id_b (bubbles s ! i)) (bubbles s) = Some (bubbles s ! i)"
      by (rule find_by_id [OF assms(3) il])
    with True have "handleBubbleClick (id_b (bubbles s ! i)) s = s"
      by (simp add: handleBubbleClick_def)
    with True show ?thesis by (simp add: expected_next_def)
  next
    case False
    show ?thesis
      using handleBubbleClick_unselected [OF assms il False]
      by (simp add: correct_pick_def)
  qed
next
  assume a: "bubbles s \<noteq> [] \<and> (\<forall>b\<in>set (bubbles s). \<not> selected b)
            \<and> correctCount s = 0 \<and> wrongCount s = 0"
  let ?order = "sort_key value_b (bubbles s)"
  let ?s' = "run rnd (map (\<lambda>b. Click (id_b b)) ?order) s"
  have u: "filter (\<lambda>b. \<not> selected b) (bubbles s) = bubbles s"
    using a by (simp add: filter_id_conv)
  have o: "sort_key value_b (filter (\<lambda>b. \<not> selected b) (bubbles s)) = ?order"
    by (simp add: u)
  have ne: "?order \<noteq> []" using a by (metis length_sort length_0_conv)
  note r = ascending_picks [OF assms o ne, of rnd]
  show "correctCount ?s' = int (length (bubbles s))" using r a by simp
  show "wrongCount ?s' = 0" using r a by simp
  show "\<forall>b\<in>set (bubbles ?s'). selected b"
    using r by (auto simp: filter_empty_conv)
  show "processing ?s'" using r by simp
  show "timeouts ?s' = timeouts s @ [(CORRECT_DELAY_MS,
                  (current_env s)\<lparr>env_correctCount := int (length (bubbles s)) - 1\<rparr>)]"
    using r a by simp
qed

text \<open>
  C9. In an active round, selecting an unconsumed stimulus that is not the one to select
  next adds one to \<open>wrongCount\<close> and changes nothing else: the stimuli and their
  consumed marks, \<open>correctCount\<close>, the pending timeouts and every other variable stay.
\<close>

theorem incorrect_selection_only_counts:
  assumes "screen s = PLAYING" and "\<not> processing s" and "distinct (map id_b (bubbles s))"
    and "i < length (bubbles s)" and "\<not> selected (bubbles s ! i)"
    and "\<not> expected_next (bubbles s) i"
  shows "handleBubbleClick (id_b (bubbles s ! i)) s = s\<lparr>wrongCount := wrongCount s + 1\<rparr>"
  using handleBubbleClick_unselected [OF assms(1-5)] assms(6) by simp

lemma config_of_table:
  assumes "1 \<le> r"
  shows "\<exists>cfg. config_of r = Some cfg \<and> bubbleCount cfg = 3 \<and> roundTime cfg = ROUND_TIME"
proof -
  have "r = 1 \<or> r = 2 \<or> r = 3 \<or> r = 4 \<or> r = 5 \<or> r = 6 \<or> r = 7 \<or> 8 \<le> r"
    using assms by arith
  then show ?thesis
    by (auto simp: config_of_def js_index_def DIFFICULTY_TABLE_def min_def)
qed

lemma startRound_ok:
  assumes "1 \<le> r"
  shows "\<exists>bs n'. startRound rnd r now s
            = s\<lparr>bubbles := bs, roundTime_s := ROUND_TIME, selectionOrder := 0,
                correctCount := 0, wrongCount := 0, processing := False,
                roundEndedRef := False, roundStartRef := now, rngPos := n'\<rparr>
          \<and> length bs = 3 \<and> map id_b bs = [0, 1, 2] \<and> (\<forall>b\<in>set bs. \<not> selected b)"
proof -
  from config_of_table [OF assms] obtain cfg where c: "config_of r = Some cfg"
    "bubbleCount cfg = 3" "roundTime cfg = ROUND_TIME" by blast
  from generateBubblesTrace_result [OF assms, of cfg rnd "rngPos s"] c(2)
  obtain slots n' where t: "generateBubblesTrace cfg r rnd (rngPos s) = (Inr slots, n')"
    and l: "int (length slots) = 3" and i: "map (\<lambda>p. id_b (fst p)) slots = [0..2]"
    and u: "\<forall>p\<in>set slots. \<not> selected (fst p)"
    by auto
  have g: "generateBubbles cfg r rnd (rngPos s) = (Inr (map fst slots), n')"
    by (simp add: generateBubbles_def t)
  have "[0..2] = [0, 1, 2::int]" by (simp add: upto_rec1)
  with i have f1: "map id_b (map fst slots) = [0, 1, 2]" by (simp add: comp_def)
  have f2: "length (map fst slots) = 3" using l by simp
  have f3: "\<forall>b\<in>set (map fst slots). \<not> selected b" using u by auto
  have f4: "startRound rnd r now s
      = s\<lparr>bubbles := map fst slots, roundTime_s := ROUND_TIME, selectionOrder := 0,
          correctCount := 0, wrongCount := 0, processing := False,
          roundEndedRef := False, roundStartRef := now, rngPos := n'\<rparr>"
    by (simp add: startRound_def c g)
  show ?thesis
    by (rule exI [of _ "map fst slots"], rule exI [of _ n']) (intro conjI f1 f2 f3 f4)
qed

lemma example_start:
  "run example_rnd [Start 0] (initial_state 0) = example_started"
proof -
  have c: "config_of 1 = Some (DIFFICULTY_TABLE ! 0)"
    by (simp add: config_of_def js_index_def DIFFICULTY_TABLE_def)
  have g: "generateBubbles (DIFFICULTY_TABLE ! 0) 1 example_rnd 0 = (Inr example_bubbles, 9)"
    by (simp add: generateBubbles_def example_round1_trace example_bubbles_def)
  have r: "roundTime (DIFFICULTY_TABLE ! 0) = 15"
    by (simp add: DIFFICULTY_TABLE_def ROUND_TIME_def)
  show ?thesis
    by (simp add: run_Cons run_Nil handleStart_def startRound_def initial_state_def c g r
        example_started_def SESSION_DURATION_def ROUND_TIME_def)
qed

lemma example_first: "expected_next example_bubbles 0"
  by (simp add: expected_next_def example_bubbles_def less_Suc_eq numeral_3_eq_3)

lemma example_second: "\<not> expected_next example_bubbles 1"
  by (simp add: expected_next_def example_bubbles_def less_Suc_eq numeral_3_eq_3)

lemma example_sorted: "sort_key value_b example_bubbles = example_bubbles"
  by (simp add: example_bubbles_def)

theorem selection_scoring_witness:
  "screen example_started = PLAYING \<and> \<not> processing example_started
   \<and> distinct (map id_b (bubbles example_started))
   \<and> bubbles example_started \<noteq> [] \<and> filter selected (bubbles example_started) = []
   \<and> correctCount example_started = 0 \<and> wrongCount example_started = 0
   \<and> expected_next (bubbles example_started) 0
   \<and> correctCount (handleBubbleClick 0 example_started) = 1
   \<and> \<not> expected_next (bubbles example_started) 1
   \<and> correctCount (handleBubbleClick 1 example_started) \<noteq> 1
   \<and> correctCount (run example_rnd [Click 0, Click 1, Click 2] example_started) = 3
   \<and> wrongCount (run example_rnd [Click 0, Click 1, Click 2] example_started) = 0
   \<and> processing (run example_rnd [Click 0, Click 1, Click 2] example_started)
   \<and> map fst (timeouts (run example_rnd [Click 0, Click 1, Click 2] example_started)) = [250]"
proof -
  have h: "screen example_started = PLAYING" "\<not> processing example_started"
    "distinct (map id_b (bubbles example_started))"
    by (simp_all add: example_started_def example_bubbles_def)
  have a: "bubbles example_started \<noteq> []" "\<forall>b\<in>set (bubbles example_started). \<not> selected b"
    "correctCount example_started = 0" "wrongCount example_started = 0"
    by (simp_all add: example_started_def example_bubbles_def)
  have b: "bubbles example_started = example_bubbles" "timeouts example_started = []"
    by (simp_all add: example_started_def)
  have i: "id_b (example_bubbles ! 0) = 0" "id_b (example_bubbles ! 1) = 1"
    "id_b (example_bubbles ! Suc 0) = 1" "length example_bubbles = 3"
    "map (\<lambda>b. Click (id_b b)) example_bubbles = [Click 0, Click 1, Click 2]"
    by (simp_all add: example_bubbles_def)
  note t = selection_scoring [OF h, of example_rnd]
  from t have p1: "(correctCount (handleBubbleClick (id_b (bubbles example_started ! k))
        example_started) = correctCount example_started + 1)
      = expected_next (bubbles example_started) k" if "k < length (bubbles example_started)" for k
    using that by blast
  have c0: "correctCount (handleBubbleClick 0 example_started) = 1"
    using p1 [of 0] example_first by (simp add: b i a)
  have c1: "correctCount (handleBubbleClick 1 example_started) \<noteq> 1"
    using p1 [of 1] example_second by (simp add: b i a)
  from t a have p2:
    "correctCount (run example_rnd (map (\<lambda>b. Click (id_b b))
        (sort_key value_b (bubbles example_started))) example_started)
       = int (length (bubbles example_started))"
    "wrongCount (run example_rnd (map (\<lambda>b. Click (id_b b))
        (sort_key value_b (bubbles example_started))) example_started) = 0"
    "processing (run example_rnd (map (\<lambda>b. Click (id_b b))
        (sort_key value_b (bubbles example_started))) example_started)"
    "timeouts (run example_rnd (map (\<lambda>b. Click (id_b b))
        (sort_key value_b (bubbles example_started))) example_started)
       = timeouts example_started @ [(CORRECT_DELAY_MS,
          (current_env example_started)\<lparr>env_correctCount :=
             int (length (bubbles example_started)) - 1\<rparr>)]"
    by blast+
  show ?thesis
    using h a c0 c1 p2 example_first example_second
    by (simp add: b i example_sorted CORRECT_DELAY_MS_def)
qed

theorem incorrect_selection_only_counts_witness:
  "screen example_started = PLAYING \<and> \<not> processing example_started
   \<and> distinct (map id_b (bubbles example_started))
   \<and> (1::nat) < length (bubbles example_started) \<and> \<not> selected (bubbles example_started ! 1)
   \<and> \<not> expected_next (bubbles example_started) 1
   \<and> handleBubbleClick 1 example_started = example_started\<lparr>wrongCount := 1\<rparr>"
proof -
  have h: "screen example_started = PLAYING" "\<not> processing example_started"
    "distinct (map id_b (bubbles example_started))"
    "(1::nat) < length (bubbles example_started)" "\<not> selected (bubbles example_started ! 1)"
    "\<not> expected_next (bubbles example_started) 1"
    using example_second by (simp_all add: example_started_def example_bubbles_def)
  have i: "id_b (bubbles example_started ! 1) = 1" "wrongCount example_started = 0"
    by (simp_all add: example_started_def example_bubbles_def)
  have "handleBubbleClick 1 example_started = example_started\<lparr>wrongCount := 1\<rparr>"
    using incorrect_selection_only_counts [OF h] unfolding i by simp
  with h show ?thesis by blast
qed

section \<open>The session controller\<close>

lemma generateBubbles_table:
  assumes "1 \<le> r" and "config_of r = Some cfg"
  shows "\<exists>bs n'. generateBubbles cfg r rnd k = (Inr bs, n') \<and> length bs = 3
            \<and> map id_b bs = [0, 1, 2] \<and> (\<forall>b\<in>set bs. \<not> selected b)"
proof -
  from config_of_table [OF assms(1)] assms(2) have c: "bubbleCount cfg = 3" by auto
  from generateBubblesTrace_result [OF assms(1), of cfg rnd k] c
  obtain slots n' where t: "generateBubblesTrace cfg r rnd k = (Inr slots, n')"
    and l: "int (length slots) = 3" and i: "map (\<lambda>p. id_b (fst p)) slots = [0..2]"
    and u: "\<forall>p\<in>set slots. \<not> selected (fst p)"
    by auto
  have g: "generateBubbles cfg r rnd k = (Inr (map fst slots), n')"
    by (simp add: generateBubbles_def t)
  have "[0..2] = [0, 1, 2::int]" by (simp add: upto_rec1)
  with i have f1: "map id_b (map fst slots) = [0, 1, 2]" by (simp add: comp_def)
  have f2: "length (map fst slots) = 3" using l by simp
  have f3: "\<forall>b\<in>set (map fst slots). \<not> selected b" using u by auto
  show ?thesis
    by (rule exI [of _ "map fst slots"], rule exI [of _ n']) (intro conjI g f1 f2 f3)
qed


lemma startRound_eq:
  assumes "1 \<le> r"
  shows "startRound rnd r now s
            = s\<lparr>bubbles := generated_bubbles rnd r (rngPos s), roundTime_s := ROUND_TIME,
                selectionOrder := 0, correctCount := 0, wrongCount := 0, processing := False,
                roundEndedRef := False, roundStartRef := now,
                rngPos := generated_pos rnd r (rngPos s)\<rparr>"
proof -
  from config_of_table [OF assms] obtain cfg where c: "config_of r = Some cfg"
    "roundTime cfg = ROUND_TIME" by blast
  from generateBubbles_table [OF assms c(1), of rnd "rngPos s"] show ?thesis
    by (auto simp: startRound_def generated_bubbles_def generated_pos_def c)
qed


















lemma session_ticks:
  assumes "screen s = PLAYING" and "int n < sessionTime s"
  shows "run rnd (replicate n SessionTick) s = s\<lparr>sessionTime := sessionTime s - int n\<rparr>"
  using assms(2)
proof (induction n)
  case 0
  then show ?case by (simp add: run_Nil)
next
  case (Suc n)
  have r: "replicate (Suc n) SessionTick = replicate n SessionTick @ [SessionTick]"
    by (simp add: replicate_append_same)
  from Suc have "run rnd (replicate n SessionTick) s = s\<lparr>sessionTime := sessionTime s - int n\<rparr>"
    by simp
  then show ?case
    using Suc.prems assms(1)
    by (simp add: r run_append run_Cons run_Nil sessionTick_def algebra_simps del: replicate_Suc)
qed

lemma round_ticks:
  assumes "screen s = PLAYING" and "int (length ts) < roundTime_s s"
  shows "run rnd (map RoundTick ts) s = s\<lparr>roundTime_s := roundTime_s s - int (length ts)\<rparr>"
  using assms(2)
proof (induction ts rule: rev_induct)
  case Nil
  then show ?case by (simp add: run_Nil)
next
  case (snoc t ts)
  then have "run rnd (map RoundTick ts) s = s\<lparr>roundTime_s := roundTime_s s - int (length ts)\<rparr>"
    by simp
  then show ?case
    using snoc.prems assms(1)
    by (simp add: run_append run_Cons run_Nil roundTick_def algebra_simps)
qed

lemma example_play:
  "run example_rnd [Click 0, Click 2] example_started = example_played"
  by (simp add: run_Cons run_Nil handleBubbleClick_def example_started_def example_bubbles_def
      example_played_def)

text \<open>The manual submit, for comparison, records the round in progress before it ends the session.\<close>

lemma submit_records_partial_round:
  "run example_rnd [Start 0, Click 0, Click 2, Submit 4000] (initial_state 0)
     = example_played
         \<lparr>screen := COMPLETE,
          roundResults := [\<lparr>round_r = 1, correct = 1, wrong = 1, score = 0, timeUsed = 4,
                             completed = False\<rparr>]\<rparr>"
proof -
  have a: "run example_rnd [Start 0, Click 0, Click 2] (initial_state 0) = example_played"
    using example_start example_play run_append [of example_rnd "[Start 0]" "[Click 0, Click 2]"]
    by simp
  have "run example_rnd ([Start 0, Click 0, Click 2] @ [Submit 4000]) (initial_state 0)
     = example_played
         \<lparr>screen := COMPLETE,
          roundResults := [\<lparr>round_r = 1, correct = 1, wrong = 1, score = 0, timeUsed = 4,
                             completed = False\<rparr>]\<rparr>"
    unfolding run_append a
    by (simp add: run_Cons run_Nil handleSubmit_def example_played_def example_started_def
        example_bubbles_def round_seconds_def)
  then show ?thesis by simp
qed

lemma example_complete:
  "run example_rnd [Click 0, Click 1, Click 2] (example_started\<lparr>roundTime_s := 1\<rparr>)
     = example_completed"
  by (simp add: run_Cons run_Nil handleBubbleClick_def example_started_def example_bubbles_def
      example_completed_def current_env_def)

text \<open>
  C3 does not hold of the code. All three stimuli of round 1 are selected in the last
  second of the round, so the end of the round is scheduled 250 ms later; the round
  clock expires first and ends the round, and starting round 2 clears the guard. The
  scheduled call then passes the guard: round 1 has two results and the round index
  has advanced twice.
\<close>

theorem late_timeout_records_twice:
  "roundResults (run example_rnd
      ([Start 0] @ map RoundTick [1000, 2000, 3000, 4000, 5000, 6000, 7000, 8000, 9000, 10000,
                                   11000, 12000, 13000, 14000]
       @ [Click 0, Click 1, Click 2] @ [RoundTick 15000, Settle 15200]) (initial_state 0))
     = [\<lparr>round_r = 1, correct = 3, wrong = 0, score = 3, timeUsed = 15, completed = False\<rparr>,
        \<lparr>round_r = 1, correct = 2, wrong = 0, score = 2, timeUsed = 0, completed = True\<rparr>]
   \<and> round_s (run example_rnd
      ([Start 0] @ map RoundTick [1000, 2000, 3000, 4000, 5000, 6000, 7000, 8000, 9000, 10000,
                                   11000, 12000, 13000, 14000]
       @ [Click 0, Click 1, Click 2] @ [RoundTick 15000, Settle 15200]) (initial_state 0)) = 3"
proof -
  let ?ts = "[1000, 2000, 3000, 4000, 5000, 6000, 7000, 8000, 9000, 10000,
              11000, 12000, 13000, 14000] :: int list"
  have p: "screen example_started = PLAYING" "roundTime_s example_started = 15"
    by (simp_all add: example_started_def)
  have t: "run example_rnd (map RoundTick ?ts) example_started = example_started\<lparr>roundTime_s := 1\<rparr>"
    using round_ticks [of example_started ?ts example_rnd] p by simp
  let ?e1 = "\<lparr>env_round = 1, env_correctCount = 3, env_wrongCount = 0, env_sessionTime = 420\<rparr>"
  let ?e0 = "\<lparr>env_round = 1, env_correctCount = 2, env_wrongCount = 0, env_sessionTime = 420\<rparr>"
  let ?r1 = "\<lparr>round_r = 1, correct = 3, wrong = 0, score = 3, timeUsed = 15, completed = False\<rparr>"
  let ?r2 = "\<lparr>round_r = 1, correct = 2, wrong = 0, score = 2, timeUsed = 0, completed = True\<rparr>"
  let ?a = "example_completed\<lparr>roundTime_s := 0, roundEndedRef := True, totalScore := 3,
              roundResults := [?r1], round_s := 2\<rparr>"
  have c: "screen example_completed = PLAYING" "roundTime_s example_completed = 1"
    "current_env example_completed = ?e1" "\<not> roundEndedRef example_completed"
    "roundStartRef example_completed = 0" "totalScore example_completed = 0"
    "roundResults example_completed = []" "round_s example_completed = 1"
    "timeouts example_completed = [(CORRECT_DELAY_MS, ?e0)]"
    by (simp_all add: example_completed_def example_started_def current_env_def)
  have k: "step example_rnd example_completed (RoundTick 15000) = startRound example_rnd 2 15000 ?a"
    by (simp add: roundTick_def endRound_def c round_seconds_def TOTAL_QUESTIONS_def)
  let ?b = "startRound example_rnd 2 15000 ?a"
  have b: "\<not> roundEndedRef ?b" "roundStartRef ?b = 15000" "totalScore ?b = 3"
    "roundResults ?b = [?r1]" "round_s ?b = 2" "timeouts ?b = [(CORRECT_DELAY_MS, ?e0)]"
    by (simp_all add: startRound_eq c)
  let ?c = "?b\<lparr>timeouts := [], roundEndedRef := True, totalScore := 5,
              roundResults := [?r1, ?r2], round_s := 3\<rparr>"
  have f: "step example_rnd ?b (Settle 15200) = startRound example_rnd 2 15200 ?c"
    by (simp add: fireTimeout_def endRound_def b round_seconds_def TOTAL_QUESTIONS_def)
  have g: "roundResults (startRound example_rnd 2 15200 ?c) = [?r1, ?r2]"
    "round_s (startRound example_rnd 2 15200 ?c) = 3"
    by (simp_all add: startRound_eq)
  have "run example_rnd ([Start 0] @ map RoundTick ?ts @ [Click 0, Click 1, Click 2]
          @ [RoundTick 15000, Settle 15200]) (initial_state 0)
        = startRound example_rnd 2 15200 ?c"
    unfolding run_append example_start t example_complete
    by (simp only: run_Cons run_Nil k f)
  with g show ?thesis by simp
qed

section \<open>Timed sessions\<close>




















































lemma timed_stepD:
  assumes "timed_step rnd (s, k) (t, a) = Some st'"
  shows "on_time k t a"
    and "st' = (perform rnd t a s, next_timers k t a s (perform rnd t a s))"
  using assms by (simp_all add: timed_step_def split: if_splits)





lemma perform_step:
  "a \<noteq> ARoundTick True \<Longrightarrow> perform rnd t a s = step rnd s (event_of (t, a))"
  by (cases a) auto

lemma timed_run_is_run:
  assumes "timed_run rnd tas st = Some st'" and "\<forall>ta\<in>set tas. snd ta \<noteq> ARoundTick True"
  shows "fst st' = run rnd (map event_of tas) (fst st)"
  using assms
proof (induction tas arbitrary: st)
  case Nil
  then show ?case by (simp add: run_Nil)
next
  case (Cons ta tas)
  from Cons.prems(1) obtain st1 where a: "timed_step rnd st ta = Some st1"
    and b: "timed_run rnd tas st1 = Some st'"
    by (auto split: option.splits)
  obtain s k where st: "st = (s, k)" by (cases st)
  obtain t ac where ta: "ta = (t, ac)" by (cases ta)
  from timed_stepD(2) [OF a [unfolded st ta]] have "fst st1 = perform rnd t ac s" by simp
  moreover have "ac \<noteq> ARoundTick True" using Cons.prems(2) ta by simp
  ultimately have "fst st1 = step rnd (fst st) (event_of ta)"
    by (simp add: perform_step st ta)
  moreover have "fst st' = run rnd (map event_of tas) (fst st1)"
    using Cons.IH [OF b] Cons.prems(2) by simp
  ultimately show ?case by (simp add: run_Cons)
qed

lemma timed_run_append:
  "timed_run rnd (xs @ ys) st
     = (case timed_run rnd xs st of None \<Rightarrow> None | Some st' \<Rightarrow> timed_run rnd ys st')"
  by (induction xs arbitrary: st) (simp_all split: option.split)

lemma timed_tick_pair:
  assumes "screen s = PLAYING" and "1 < sessionTime s" and "1 < roundTime_s s"
    and "clock k \<le> t" and "sessionDue k = Some t" and "roundDue k = Some t"
    and "timeoutDue k = []"
  shows "timed_run rnd [(t, ASessionTick), (t, ARoundTick False)] (s, k)
           = Some (s\<lparr>sessionTime := sessionTime s - 1, roundTime_s := roundTime_s s - 1\<rparr>,
                   \<lparr>clock = t, sessionDue = Some (t + 1000), roundDue = Some (t + 1000),
                    timeoutDue = []\<rparr>)"
proof -
  have 1: "timed_step rnd (s, k) (t, ASessionTick)
      = Some (s\<lparr>sessionTime := sessionTime s - 1\<rparr>,
              \<lparr>clock = t, sessionDue = Some (t + 1000), roundDue = Some t, timeoutDue = []\<rparr>)"
    using assms by (simp add: timed_step_def on_time_def next_timers_def sessionTick_def)
  have 2: "timed_step rnd (s\<lparr>sessionTime := sessionTime s - 1\<rparr>,
              \<lparr>clock = t, sessionDue = Some (t + 1000), roundDue = Some t, timeoutDue = []\<rparr>)
            (t, ARoundTick False)
      = Some (s\<lparr>sessionTime := sessionTime s - 1, roundTime_s := roundTime_s s - 1\<rparr>,
              \<lparr>clock = t, sessionDue = Some (t + 1000), roundDue = Some (t + 1000),
               timeoutDue = []\<rparr>)"
    using assms by (simp add: timed_step_def on_time_def next_timers_def roundTick_def)
  show ?thesis by (simp only: timed_run.simps 1 2 option.case)
qed

lemma timed_ticks:
  assumes "screen s = PLAYING" and "int n < sessionTime s" and "int n < roundTime_s s"
    and "clock k \<le> t" and "sessionDue k = Some t" and "roundDue k = Some t"
    and "timeoutDue k = []"
  shows "\<exists>k'. timed_run rnd (tick_pairs t n) (s, k)
           = Some (s\<lparr>sessionTime := sessionTime s - int n, roundTime_s := roundTime_s s - int n\<rparr>,
                   k')
         \<and> clock k' \<le> max (clock k) (t + 1000 * n - 1000)
         \<and> sessionDue k' = Some (t + 1000 * n)
         \<and> roundDue k' = Some (t + 1000 * n) \<and> timeoutDue k' = []"
  using assms(2,3)
proof (induction n)
  case 0
  show ?case using assms(4-7) by (simp add: tick_pairs_def)
next
  case (Suc n)
  let ?s = "s\<lparr>sessionTime := sessionTime s - int n, roundTime_s := roundTime_s s - int n\<rparr>"
  from Suc obtain k' where r: "timed_run rnd (tick_pairs t n) (s, k) = Some (?s, k')"
    and k0: "clock k' \<le> max (clock k) (t + 1000 * n - 1000)"
    and k: "sessionDue k' = Some (t + 1000 * n)"
      "roundDue k' = Some (t + 1000 * n)" "timeoutDue k' = []"
    by auto
  have p: "screen ?s = PLAYING" "1 < sessionTime ?s" "1 < roundTime_s ?s"
    using assms(1) Suc.prems by simp_all
  have c: "clock k' \<le> t + 1000 * n" using k0 assms(4) by simp
  note q = timed_tick_pair [OF p c k, of rnd]
  have e: "tick_pairs t (Suc n)
      = tick_pairs t n @ [(t + 1000 * n, ASessionTick), (t + 1000 * n, ARoundTick False)]"
    by (simp add: tick_pairs_def)
  have "timed_run rnd (tick_pairs t (Suc n)) (s, k)
      = Some (?s\<lparr>sessionTime := sessionTime ?s - 1, roundTime_s := roundTime_s ?s - 1\<rparr>,
              \<lparr>clock = t + 1000 * n, sessionDue = Some (t + 1000 * n + 1000),
               roundDue = Some (t + 1000 * n + 1000), timeoutDue = []\<rparr>)"
    by (simp only: e timed_run_append r q option.case)
  then show ?case by (simp add: algebra_simps)
qed


lemma late_clicks:
  assumes "clock k \<le> 14900" and "sessionDue k = Some 15000" and "roundDue k = Some 15000"
    and "timeoutDue k = []"
  shows "timed_run example_rnd [(14900, AClick 0), (14900, AClick 1), (14900, AClick 2)]
           (example_started\<lparr>sessionTime := 406, roundTime_s := 1\<rparr>, k)
         = Some (example_completed
                   \<lparr>timeouts := [(CORRECT_DELAY_MS,
                      \<lparr>env_round = 1, env_correctCount = 2, env_wrongCount = 0,
                        env_sessionTime = 406\<rparr>)],
                    sessionTime := 406\<rparr>,
                 \<lparr>clock = 14900, sessionDue = Some 15000, roundDue = Some 15000,
                  timeoutDue = [15150]\<rparr>)"
  using assms
  by (simp add: timed_step_def on_time_def next_timers_def handleBubbleClick_def
      example_started_def example_bubbles_def example_completed_def current_env_def
      CORRECT_DELAY_MS_def)


lemma late_expiry:
  "\<exists>s k. timed_run example_rnd
            [(15000, ASessionTick), (15000, ARoundTick False), (15150, ASettle)]
            (example_completed
               \<lparr>timeouts := [(CORRECT_DELAY_MS,
                  \<lparr>env_round = 1, env_correctCount = 2, env_wrongCount = 0,
                    env_sessionTime = 406\<rparr>)],
                sessionTime := 406\<rparr>,
             \<lparr>clock = 14900, sessionDue = Some 15000, roundDue = Some 15000,
              timeoutDue = [15150]\<rparr>)
          = Some (s, k)
      \<and> screen s = PLAYING \<and> sessionTime s = 405
      \<and> roundResults s
          = [\<lparr>round_r = 1, correct = 3, wrong = 0, score = 3, timeUsed = 15, completed = False\<rparr>,
             \<lparr>round_r = 1, correct = 2, wrong = 0, score = 2, timeUsed = 0, completed = True\<rparr>]
      \<and> round_s s = 3"
proof -
  let ?e0 = "\<lparr>env_round = 1, env_correctCount = 2, env_wrongCount = 0, env_sessionTime = 406\<rparr>"
  let ?r1 = "\<lparr>round_r = 1, correct = 3, wrong = 0, score = 3, timeUsed = 15, completed = False\<rparr>"
  let ?r2 = "\<lparr>round_r = 1, correct = 2, wrong = 0, score = 2, timeUsed = 0, completed = True\<rparr>"
  let ?s3 = "example_completed\<lparr>timeouts := [(CORRECT_DELAY_MS, ?e0)], sessionTime := 406\<rparr>"
  let ?k3 = "\<lparr>clock = 14900, sessionDue = Some 15000, roundDue = Some 15000,
              timeoutDue = [15150]\<rparr>"
  let ?s4 = "example_completed\<lparr>timeouts := [(CORRECT_DELAY_MS, ?e0)], sessionTime := 405\<rparr>"
  let ?k4 = "\<lparr>clock = 15000, sessionDue = Some 16000, roundDue = Some 15000,
              timeoutDue = [15150]\<rparr>"
  have c: "screen ?s4 = PLAYING" "roundTime_s ?s4 = 1" "\<not> roundEndedRef ?s4"
    "roundStartRef ?s4 = 0" "totalScore ?s4 = 0" "roundResults ?s4 = []" "round_s ?s4 = 1"
    "timeouts ?s4 = [(CORRECT_DELAY_MS, ?e0)]" "sessionTime ?s4 = 405"
    "current_env ?s4
       = \<lparr>env_round = 1, env_correctCount = 3, env_wrongCount = 0, env_sessionTime = 405\<rparr>"
    by (simp_all add: example_completed_def example_started_def current_env_def)
  have c0: "screen example_completed = PLAYING" "roundTime_s example_completed = 1"
    "\<not> roundEndedRef example_completed" "roundStartRef example_completed = 0"
    "totalScore example_completed = 0" "roundResults example_completed = []"
    "round_s example_completed = 1" "correctCount example_completed = 3"
    "wrongCount example_completed = 0"
    by (simp_all add: example_completed_def example_started_def)
  have 1: "timed_step example_rnd (?s3, ?k3) (15000, ASessionTick) = Some (?s4, ?k4)"
    by (simp add: timed_step_def on_time_def next_timers_def sessionTick_def c0)
  let ?a = "?s4\<lparr>roundTime_s := 0, roundEndedRef := True, totalScore := 3,
              roundResults := [?r1], round_s := 2\<rparr>"
  let ?s5 = "startRound example_rnd 2 15000 ?a"
  let ?k5 = "\<lparr>clock = 15000, sessionDue = Some 16000, roundDue = Some 16000,
              timeoutDue = [15150]\<rparr>"
  have p5: "perform example_rnd 15000 (ARoundTick False) ?s4 = ?s5"
    by (simp add: roundTick_def endRound_def c0 current_env_def round_seconds_def
        TOTAL_QUESTIONS_def)
  have b: "screen ?s5 = PLAYING" "\<not> roundEndedRef ?s5" "roundStartRef ?s5 = 15000"
    "totalScore ?s5 = 3" "roundResults ?s5 = [?r1]" "round_s ?s5 = 2"
    "timeouts ?s5 = [(CORRECT_DELAY_MS, ?e0)]" "sessionTime ?s5 = 405"
    by (simp_all add: startRound_eq c0)
  have 2: "timed_step example_rnd (?s4, ?k4) (15000, ARoundTick False) = Some (?s5, ?k5)"
    unfolding timed_step_def fst_conv snd_conv p5
    by (simp add: on_time_def next_timers_def b c0)
  let ?c = "?s5\<lparr>timeouts := [], roundEndedRef := True, totalScore := 5,
              roundResults := [?r1, ?r2], round_s := 3\<rparr>"
  let ?s6 = "startRound example_rnd 2 15150 ?c"
  have p6: "perform example_rnd 15150 ASettle ?s5 = ?s6"
    by (simp add: fireTimeout_def endRound_def b c0 round_seconds_def TOTAL_QUESTIONS_def)
  have g: "screen ?s6 = PLAYING" "roundResults ?s6 = [?r1, ?r2]" "round_s ?s6 = 3"
    "timeouts ?s6 = []" "sessionTime ?s6 = 405"
    by (simp_all add: startRound_eq b c0)
  let ?k6 = "\<lparr>clock = 15150, sessionDue = Some 16000, roundDue = Some 16150,
              timeoutDue = []\<rparr>"
  have 3: "timed_step example_rnd (?s5, ?k5) (15150, ASettle) = Some (?s6, ?k6)"
    unfolding timed_step_def fst_conv snd_conv p6
    by (simp add: on_time_def next_timers_def b g c0)
  have "timed_run example_rnd
            [(15000, ASessionTick), (15000, ARoundTick False), (15150, ASettle)] (?s3, ?k3)
          = Some (?s6, ?k6)"
    by (simp only: timed_run.simps 1 2 3 option.case)
  with g show ?thesis by blast
qed

text \<open>
  The double record of a round by a late timeout does occur with every timer firing
  when due: the run is a timed run, the round index is 3 after 15.15 seconds, and the
  session countdown is at 405.
\<close>

lemma late_timeout_on_time:
  "\<exists>s k. timed_run example_rnd late_actions (initial_state 0, initial_timers) = Some (s, k)
      \<and> screen s = PLAYING \<and> sessionTime s = 405
      \<and> roundResults s
          = [\<lparr>round_r = 1, correct = 3, wrong = 0, score = 3, timeUsed = 15, completed = False\<rparr>,
             \<lparr>round_r = 1, correct = 2, wrong = 0, score = 2, timeUsed = 0, completed = True\<rparr>]
      \<and> round_s s = 3"
proof -
  let ?k0 = "\<lparr>clock = 0, sessionDue = Some 1000, roundDue = Some 1000, timeoutDue = []\<rparr>"
  have i: "screen (initial_state 0) = INSTRUCTIONS" "timeouts (initial_state 0) = []"
    "round_s (initial_state 0) = 1"
    by (simp_all add: initial_state_def)
  have s: "handleStart example_rnd 0 (initial_state 0) = example_started"
    using example_start by (simp add: run_Cons run_Nil i)
  have 1: "timed_run example_rnd [(0, AStart)] (initial_state 0, initial_timers)
      = Some (example_started, ?k0)"
    by (simp add: timed_step_def on_time_def initial_timers_def next_timers_def s i)
      (simp add: example_started_def)
  have p: "screen example_started = PLAYING" "int 14 < sessionTime example_started"
    "int 14 < roundTime_s example_started"
    by (simp_all add: example_started_def)
  have q: "clock ?k0 \<le> 1000" "sessionDue ?k0 = Some 1000" "roundDue ?k0 = Some 1000"
    "timeoutDue ?k0 = []"
    by simp_all
  from timed_ticks [OF p q, of example_rnd] obtain k1
    where 2: "timed_run example_rnd (tick_pairs 1000 14) (example_started, ?k0)
        = Some (example_started\<lparr>sessionTime := 406, roundTime_s := 1\<rparr>, k1)"
      and k1: "clock k1 \<le> 14900" "sessionDue k1 = Some 15000" "roundDue k1 = Some 15000"
        "timeoutDue k1 = []"
    by (auto simp: example_started_def)
  note 3 = late_clicks [OF k1]
  from late_expiry obtain s k
    where 4: "timed_run example_rnd
            [(15000, ASessionTick), (15000, ARoundTick False), (15150, ASettle)]
            (example_completed
               \<lparr>timeouts := [(CORRECT_DELAY_MS,
                  \<lparr>env_round = 1, env_correctCount = 2, env_wrongCount = 0,
                    env_sessionTime = 406\<rparr>)],
                sessionTime := 406\<rparr>,
             \<lparr>clock = 14900, sessionDue = Some 15000, roundDue = Some 15000,
              timeoutDue = [15150]\<rparr>)
          = Some (s, k)"
      and r: "screen s = PLAYING" "sessionTime s = 405"
        "roundResults s
          = [\<lparr>round_r = 1, correct = 3, wrong = 0, score = 3, timeUsed = 15, completed = False\<rparr>,
             \<lparr>round_r = 1, correct = 2, wrong = 0, score = 2, timeUsed = 0, completed = True\<rparr>]"
        "round_s s = 3"
    by blast
  have e: "late_actions = [(0, AStart)] @ tick_pairs 1000 14
      @ [(14900, AClick 0), (14900, AClick 1), (14900, AClick 2)]
      @ [(15000, ASessionTick), (15000, ARoundTick False), (15150, ASettle)]"
    by (simp add: late_actions_def)
  have "timed_run example_rnd late_actions (initial_state 0, initial_timers) = Some (s, k)"
    by (simp only: e timed_run_append 1 2 3 4 option.case)
  with r show ?thesis by blast
qed

text \<open>
  Without the clock the countdown can run out in round 1: 420 ticks of the session
  interval with no tick of the round interval between them. By \<open>timed_session_bound\<close>
  no timed run does this.
\<close>

lemma session_expiry_by_hand:
  "run example_rnd ([Start 0, Click 0, Click 2] @ replicate 420 SessionTick) (initial_state 0)
     = example_played\<lparr>screen := COMPLETE, sessionTime := 0\<rparr>
   \<and> round_s example_played = 1 \<and> correctCount example_played = 1
   \<and> wrongCount example_played = 1 \<and> roundResults example_played = []"
proof -
  have a: "run example_rnd [Start 0, Click 0, Click 2] (initial_state 0) = example_played"
    using example_start example_play run_append [of example_rnd "[Start 0]" "[Click 0, Click 2]"]
    by simp
  have p: "screen example_played = PLAYING" "sessionTime example_played = 420"
    by (simp_all add: example_played_def example_started_def)
  have r: "replicate 420 SessionTick = replicate 419 SessionTick @ [SessionTick]"
  proof -
    have "(420::nat) = Suc 419" by simp
    then show ?thesis by (simp only: replicate_Suc replicate_append_same)
  qed
  have t: "run example_rnd (replicate 419 SessionTick) example_played
      = example_played\<lparr>sessionTime := 1\<rparr>"
    using session_ticks [of example_played 419 example_rnd] p by simp
  have "run example_rnd ([Start 0, Click 0, Click 2] @ replicate 420 SessionTick) (initial_state 0)
     = example_played\<lparr>screen := COMPLETE, sessionTime := 0\<rparr>"
    unfolding r run_append a t
    by (simp add: run_Cons run_Nil sessionTick_def p)
  then show ?thesis
    by (simp add: example_played_def example_started_def)
qed







end
